theory Spec2Isabelle
  imports Complex_Main "HOL-Library.Char_ord" "HOL-Library.List_Lexorder"
begin

section \<open>Values, rows and tables\<close>

text \<open>
  The notebook \<^verbatim>\<open>share.ipynb\<close> builds one pandas DataFrame of synthetic sales data
  and queries it. A cell of a table is an integer, a string, a timestamp or a float.
  A finite float64 is given by the rational it stands for, next to the three special
  values of IEEE arithmetic; the operations below round every result to the nearest
  float64. The sign of zero is not modelled.
  Integer columns are unbounded integers (the notebook's values are a few hundred).
\<close>

datatype float64 = Finite rat | PosInf | NegInf | NaN

datatype timestamp = Timestamp (year: nat) (month: nat) (day: nat)

datatype val = IntV int | StrV string | DateV timestamp | FloatV float64

datatype error = KeyError string | NameError string | TypeError string | AttributeError string

text \<open>A Python dict with string keys, in insertion order.\<close>

type_synonym pyrow = "(string \<times> val) list"

text \<open>
  A DataFrame: its column labels and its rows, each row giving a value to every column.
  The default integer row index is the position in \<open>rows\<close>.
\<close>

record dataframe =
  columns :: "string list"
  rows :: "pyrow list"

text \<open>Exceptions stop a computation: sequencing on \<open>error + 'a\<close>.\<close>

definition bind_e :: "error + 'a \<Rightarrow> ('a \<Rightarrow> error + 'b) \<Rightarrow> error + 'b" where
  "bind_e m f = (case m of Inl e \<Rightarrow> Inl e | Inr x \<Rightarrow> f x)"

text \<open>A \<^verbatim>\<open>for x in xs\<close> loop over a state, stopped by the first exception.\<close>

fun for_each :: "('a \<Rightarrow> 's \<Rightarrow> error + 's) \<Rightarrow> 'a list \<Rightarrow> 's \<Rightarrow> error + 's" where
  "for_each body [] s = Inr s"
| "for_each body (x # xs) s = bind_e (body x s) (for_each body xs)"

text \<open>Keys in the order of their first appearance.\<close>

fun uniq :: "'a list \<Rightarrow> 'a list" where
  "uniq [] = []"
| "uniq (x # xs) = x # filter (\<lambda>y. y \<noteq> x) (uniq xs)"

text \<open>
  \<^verbatim>\<open>pd.DataFrame(data)\<close> for a list of dicts: the columns are the keys in order of
  first appearance, and a key a dict lacks gives NaN.
\<close>

definition DataFrame :: "pyrow list \<Rightarrow> dataframe" where
  "DataFrame data =
     (let cols = uniq (concat (map (map fst) data))
      in \<lparr>columns = cols,
          rows = map (\<lambda>d. map (\<lambda>c. (c, case map_of d c of Some v \<Rightarrow> v
                                                          | None \<Rightarrow> FloatV NaN)) cols) data\<rparr>)"

section \<open>The numerical library\<close>

text \<open>
  numpy's generator and its floating-point arithmetic are not part of the notebook; they
  are parameters of the model. \<open>'g\<close> is the state of the global generator and \<open>'f\<close>
  the type of floats:
  \<^item> \<open>random_seed n\<close> is the state after \<^verbatim>\<open>np.random.seed(n)\<close>;
  \<^item> \<open>normal_noise\<close> is \<^verbatim>\<open>np.random.normal(1, 0.15)\<close> and \<open>normal_cost\<close> is
    \<^verbatim>\<open>np.random.normal(0, 0.05)\<close>: a draw and the next state;
  \<^item> \<open>sales_int base m noise\<close> is
    \<^verbatim>\<open>int(base * (1 + 0.2 * np.sin(m / 12 * 2 * np.pi)) * noise)\<close>;
  \<^item> \<open>cost_int sales x\<close> is \<^verbatim>\<open>int(sales * (0.6 + x))\<close>.
\<close>

record ('g, 'f) numpy =
  random_seed :: "nat \<Rightarrow> 'g"
  normal_noise :: "'g \<Rightarrow> 'f \<times> 'g"
  normal_cost :: "'g \<Rightarrow> 'f \<times> 'g"
  sales_int :: "int \<Rightarrow> nat \<Rightarrow> 'f \<Rightarrow> int"
  cost_int :: "int \<Rightarrow> 'f \<Rightarrow> int"

section \<open>Cell 3: the generated table\<close>

definition regions :: "string list" where
  "regions = [''North'', ''South'', ''East'', ''West'']"

definition products :: "string list" where
  "products = [''Product A'', ''Product B'', ''Product C'']"

text \<open>
  \<^verbatim>\<open>pd.date_range(start, periods=n, freq='M')\<close>: the \<open>n\<close> month ends from the month of
  \<open>start\<close> on (the end of a month is never before a day of that month).
\<close>

definition is_leap :: "nat \<Rightarrow> bool" where
  "is_leap y \<longleftrightarrow> (y mod 4 = 0 \<and> y mod 100 \<noteq> 0) \<or> y mod 400 = 0"

definition days_in_month :: "nat \<Rightarrow> nat \<Rightarrow> nat" where
  "days_in_month y m =
     (if m = 2 then (if is_leap y then 29 else 28)
      else if m = 4 \<or> m = 6 \<or> m = 9 \<or> m = 11 then 30 else 31)"

fun month_ends :: "nat \<Rightarrow> nat \<Rightarrow> nat \<Rightarrow> timestamp list" where
  "month_ends y m 0 = []"
| "month_ends y m (Suc n) =
     Timestamp y m (days_in_month y m)
       # (if m = 12 then month_ends (Suc y) 1 n else month_ends y (Suc m) n)"

definition date_range_M :: "timestamp \<Rightarrow> nat \<Rightarrow> timestamp list" where
  "date_range_M start periods = month_ends (year start) (month start) periods"

definition months :: "timestamp list" where
  "months = date_range_M (Timestamp 2023 1 1) 12"

definition base_sales :: "(string \<times> (string \<times> int) list) list" where
  "base_sales =
     [(''North'', [(''Product A'', 100), (''Product B'', 150), (''Product C'', 80)]),
      (''South'', [(''Product A'', 120), (''Product B'', 90), (''Product C'', 110)]),
      (''East'', [(''Product A'', 80), (''Product B'', 120), (''Product C'', 140)]),
      (''West'', [(''Product A'', 150), (''Product B'', 100), (''Product C'', 90)])]"

text \<open>
  The body of the innermost loop, on the pair of the list \<^verbatim>\<open>data\<close> and the generator:
  two draws, then one dict appended.
\<close>

definition loop_body ::
  "('g, 'f) numpy \<Rightarrow> string \<Rightarrow> string \<Rightarrow> timestamp \<Rightarrow> pyrow list \<times> 'g
     \<Rightarrow> error + pyrow list \<times> 'g" where
  "loop_body np region product mth st =
     (case map_of base_sales region of
        None \<Rightarrow> Inl (KeyError region)
      | Some by_product \<Rightarrow>
          (case map_of by_product product of
             None \<Rightarrow> Inl (KeyError product)
           | Some base \<Rightarrow>
               (let (noise, g1) = normal_noise np (snd st);
                    sales = sales_int np base (month mth) noise;
                    (x, g2) = normal_cost np g1;
                    cost = cost_int np sales x
                in Inr (fst st @
                          [[(''date'', DateV mth), (''region'', StrV region),
                            (''product'', StrV product), (''sales'', IntV sales),
                            (''cost'', IntV cost), (''profit'', IntV (sales - cost))]],
                        g2))))"

definition generate :: "('g, 'f) numpy \<Rightarrow> 'g \<Rightarrow> error + pyrow list \<times> 'g" where
  "generate np g =
     for_each (\<lambda>region.
       for_each (\<lambda>product.
         for_each (\<lambda>mth. loop_body np region product mth) months) products) regions ([], g)"

section \<open>Floating-point values\<close>

text \<open>
  Arithmetic on \<open>float64\<close> in the way numpy and pandas evaluate it: no operation raises,
  a division by zero gives an infinity or NaN, NaN propagates, and the exact result of
  an operation is rounded to the nearest number with a significand of 53 bits, ties to
  the even significand, with overflow to infinity above the largest float64 and
  gradual underflow below \<^verbatim>\<open>2 ** -1022\<close>.
\<close>

text \<open>The number of binary digits of a positive integer (\<^verbatim>\<open>int.bit_length\<close>).\<close>

function bit_length :: "int \<Rightarrow> int" where
  "bit_length n = (if n \<le> 0 then 0 else 1 + bit_length (n div 2))"
  by auto
termination
  by (relation "measure nat") auto

declare bit_length.simps [simp del]

definition pow2 :: "int \<Rightarrow> rat" where
  "pow2 k = (if 0 \<le> k then 2 ^ nat k else 1 / 2 ^ nat (- k))"

text \<open>The exponent \<open>e\<close> of a rational \<open>x \<noteq> 0\<close>: \<open>pow2 e \<le> \<bar>x\<bar> < pow2 (e + 1)\<close>.\<close>

definition exponent :: "rat \<Rightarrow> int" where
  "exponent x =
     (if 1 \<le> \<bar>x\<bar> then bit_length \<lfloor>\<bar>x\<bar>\<rfloor> - 1
      else - bit_length (\<lceil>1 / \<bar>x\<bar>\<rceil> - 1))"

text \<open>Rounding to the nearest integer, ties to the even one.\<close>

definition round_half_even :: "rat \<Rightarrow> int" where
  "round_half_even x =
     (let n = \<lfloor>x\<rfloor>; r = x - of_int n
      in if r < 1 / 2 then n else if 1 / 2 < r then n + 1 else if even n then n else n + 1)"

text \<open>
  The float64 nearest to a rational: the significand is an integer of at most 53 bits,
  scaled by a power of two that is at least \<^verbatim>\<open>2 ** -1074\<close>.
\<close>

definition float64_of :: "rat \<Rightarrow> float64" where
  "float64_of x =
     (if x = 0 then Finite 0
      else (let e = max (exponent x - 52) (- 1074);
                y = of_int (round_half_even (x / pow2 e)) * pow2 e
            in if pow2 1024 \<le> \<bar>y\<bar> then (if 0 < x then PosInf else NegInf) else Finite y))"

text \<open>An int64 read as a float64.\<close>

definition of_int_f :: "int \<Rightarrow> float64" where
  "of_int_f i = float64_of (of_int i)"

definition inf_of :: "int \<Rightarrow> float64" where
  "inf_of s = (if 0 < s then PosInf else if s < 0 then NegInf else NaN)"

fun fsgn :: "float64 \<Rightarrow> int" where
  "fsgn (Finite x) = (if 0 < x then 1 else if x < 0 then - 1 else 0)"
| "fsgn PosInf = 1"
| "fsgn NegInf = - 1"
| "fsgn NaN = 0"

fun fneg :: "float64 \<Rightarrow> float64" where
  "fneg (Finite x) = Finite (- x)"
| "fneg PosInf = NegInf"
| "fneg NegInf = PosInf"
| "fneg NaN = NaN"

fun fadd :: "float64 \<Rightarrow> float64 \<Rightarrow> float64" where
  "fadd (Finite x) (Finite y) = float64_of (x + y)"
| "fadd NaN b = NaN"
| "fadd a NaN = NaN"
| "fadd PosInf NegInf = NaN"
| "fadd NegInf PosInf = NaN"
| "fadd PosInf b = PosInf"
| "fadd a PosInf = PosInf"
| "fadd NegInf b = NegInf"
| "fadd a NegInf = NegInf"

definition fsub :: "float64 \<Rightarrow> float64 \<Rightarrow> float64" where
  "fsub a b = fadd a (fneg b)"

fun fmul :: "float64 \<Rightarrow> float64 \<Rightarrow> float64" where
  "fmul (Finite x) (Finite y) = float64_of (x * y)"
| "fmul NaN b = NaN"
| "fmul a NaN = NaN"
| "fmul a b = inf_of (fsgn a * fsgn b)"

fun fdiv :: "float64 \<Rightarrow> float64 \<Rightarrow> float64" where
  "fdiv NaN b = NaN"
| "fdiv a NaN = NaN"
| "fdiv (Finite x) (Finite y) =
     (if y = 0 then inf_of (fsgn (Finite x)) else float64_of (x / y))"
| "fdiv (Finite x) b = Finite 0"
| "fdiv a (Finite y) = inf_of (fsgn a * (if y < 0 then - 1 else 1))"
| "fdiv a b = NaN"

text \<open>\<^verbatim>\<open>a / b\<close> on two integers is a float: both are converted, then divided.\<close>

definition truediv :: "int \<Rightarrow> int \<Rightarrow> float64" where
  "truediv a b = fdiv (of_int_f a) (of_int_f b)"

text \<open>
  \<^verbatim>\<open>.round(d)\<close> is numpy's \<^verbatim>\<open>around\<close>: it multiplies by \<^verbatim>\<open>10 ** d\<close>, rounds to
  the nearest integer with ties to even (\<^verbatim>\<open>rint\<close>) and divides by \<^verbatim>\<open>10 ** d\<close>, each step
  in float64.
\<close>

fun rint :: "float64 \<Rightarrow> float64" where
  "rint (Finite x) = Finite (of_int (round_half_even x))"
| "rint a = a"

definition fround :: "nat \<Rightarrow> float64 \<Rightarrow> float64" where
  "fround d x = fdiv (rint (fmul x (Finite (10 ^ d)))) (Finite (10 ^ d))"

section \<open>The operations of the table library\<close>

text \<open>
  pandas is not part of the notebook either; each operation the notebook calls is
  modelled after its documented behaviour, with its exceptions as values.
\<close>

fun map_e :: "('a \<Rightarrow> error + 'b) \<Rightarrow> 'a list \<Rightarrow> error + 'b list" where
  "map_e f [] = Inr []"
| "map_e f (x # xs) = bind_e (f x) (\<lambda>y. bind_e (map_e f xs) (\<lambda>ys. Inr (y # ys)))"

text \<open>Reading a name of the kernel's namespace.\<close>

definition need :: "string \<Rightarrow> 'a option \<Rightarrow> error + 'a" where
  "need name v = (case v of None \<Rightarrow> Inl (NameError name) | Some x \<Rightarrow> Inr x)"

definition cell :: "pyrow \<Rightarrow> string \<Rightarrow> val" where
  "cell r c = (case map_of r c of Some v \<Rightarrow> v | None \<Rightarrow> FloatV NaN)"

text \<open>\<^verbatim>\<open>d[c]\<close>: a column as a Series.\<close>

definition column :: "dataframe \<Rightarrow> string \<Rightarrow> error + val list" where
  "column d c =
     (if c \<in> set (columns d) then Inr (map (\<lambda>r. cell r c) (rows d)) else Inl (KeyError c))"

text \<open>\<^verbatim>\<open>d[[c1, c2, ...]]\<close>: the listed columns, as a new table.\<close>

definition select_columns :: "dataframe \<Rightarrow> string list \<Rightarrow> error + dataframe" where
  "select_columns d cs =
     (case find (\<lambda>c. c \<notin> set (columns d)) cs of
        Some c \<Rightarrow> Inl (KeyError c)
      | None \<Rightarrow> Inr \<lparr>columns = cs, rows = map (\<lambda>r. map (\<lambda>c. (c, cell r c)) cs) (rows d)\<rparr>)"

text \<open>\<^verbatim>\<open>d[mask]\<close>: the rows where the boolean Series is true, as a new table.\<close>

definition select_rows :: "dataframe \<Rightarrow> bool list \<Rightarrow> dataframe" where
  "select_rows d keep = \<lparr>columns = columns d, rows = map fst (filter snd (zip (rows d) keep))\<rparr>"

text \<open>
  \<^verbatim>\<open>d[c] = series\<close>: the one pandas operation of the notebook that changes a table in
  place. A new label is appended as the last column. The Series of the notebook always
  come from the same table, so the lengths agree.
\<close>

fun assign :: "string \<Rightarrow> val \<Rightarrow> pyrow \<Rightarrow> pyrow" where
  "assign c v [] = [(c, v)]"
| "assign c v ((c', w) # r) = (if c' = c then (c', v) # r else (c', w) # assign c v r)"

definition set_column :: "dataframe \<Rightarrow> string \<Rightarrow> val list \<Rightarrow> dataframe" where
  "set_column d c vs =
     \<lparr>columns = (if c \<in> set (columns d) then columns d else columns d @ [c]),
      rows = map2 (\<lambda>r v. assign c v r) (rows d) vs\<rparr>"

definition str_cell :: "pyrow \<Rightarrow> string \<Rightarrow> error + string" where
  "str_cell r c =
     (case map_of r c of
        None \<Rightarrow> Inl (KeyError c)
      | Some (StrV s) \<Rightarrow> Inr s
      | Some _ \<Rightarrow> Inl (TypeError c))"

definition int_cell :: "pyrow \<Rightarrow> string \<Rightarrow> error + int" where
  "int_cell r c =
     (case map_of r c of
        None \<Rightarrow> Inl (KeyError c)
      | Some (IntV i) \<Rightarrow> Inr i
      | Some _ \<Rightarrow> Inl (TypeError c))"

fun as_float :: "val \<Rightarrow> error + float64" where
  "as_float (IntV i) = Inr (of_int_f i)"
| "as_float (FloatV x) = Inr x"
| "as_float (StrV s) = Inl (TypeError s)"
| "as_float (DateV t) = Inl (TypeError ''Timestamp'')"

fun as_int :: "val \<Rightarrow> error + int" where
  "as_int (IntV i) = Inr i"
| "as_int v = Inl (TypeError ''int'')"

subsection \<open>Group-by\<close>

text \<open>
  \<^verbatim>\<open>d.groupby(keys)\<close> numbers the distinct keys in sorted order; a sum then runs once
  over the rows and adds each value into the slot of its row's group. The model groups
  by string columns only, which is all the notebook does.
\<close>

fun add_at :: "'k \<Rightarrow> int \<Rightarrow> ('k \<times> int) list \<Rightarrow> ('k \<times> int) list" where
  "add_at k v [] = []"
| "add_at k v ((k', w) # out) =
     (if k' = k then (k', w + v) # out else (k', w) # add_at k v out)"

definition group_sum :: "'k list \<Rightarrow> ('k \<times> int) list \<Rightarrow> ('k \<times> int) list" where
  "group_sum groups kvs = foldl (\<lambda>out (k, v). add_at k v out) (map (\<lambda>k. (k, 0)) groups) kvs"

definition row_keys :: "string list \<Rightarrow> dataframe \<Rightarrow> error + string list list" where
  "row_keys keys d = map_e (\<lambda>r. map_e (str_cell r) keys) (rows d)"

text \<open>
  \<^verbatim>\<open>d.groupby(keys).agg({c: 'sum', ...}).reset_index()\<close>, and
  \<^verbatim>\<open>d.groupby(keys)[c].sum().reset_index()\<close> for one column: one row per group, the key
  columns first.
\<close>

definition groupby_sum :: "string list \<Rightarrow> string list \<Rightarrow> dataframe \<Rightarrow> error + dataframe" where
  "groupby_sum keys vals d =
     (case find (\<lambda>c. c \<notin> set (columns d)) (keys @ vals) of
        Some c \<Rightarrow> Inl (KeyError c)
      | None \<Rightarrow>
          bind_e (row_keys keys d) (\<lambda>ks.
          bind_e (map_e (\<lambda>c. bind_e (map_e (\<lambda>r. int_cell r c) (rows d))
                                (\<lambda>vs. Inr (c, group_sum (sort (uniq ks)) (zip ks vs)))) vals)
            (\<lambda>totals.
              Inr \<lparr>columns = keys @ vals,
                   rows = map (\<lambda>k. zip keys (map StrV k) @
                                    map (\<lambda>(c, tot). (c, case map_of tot k of
                                                          Some n \<Rightarrow> IntV n
                                                        | None \<Rightarrow> FloatV NaN)) totals)
                              (sort (uniq ks))\<rparr>)))"

text \<open>
  \<^verbatim>\<open>pd.pivot_table(d, values=v, index=i, columns=c, aggfunc='mean')\<close>: the mean of \<open>v\<close>
  per pair of keys (the sum over the count, as a float), laid out with one row per index
  key and one column per column key; a pair without rows gives NaN. The row labels are
  kept as the first column.
\<close>

definition pivot_table_mean :: "dataframe \<Rightarrow> string \<Rightarrow> string \<Rightarrow> string \<Rightarrow> error + dataframe" where
  "pivot_table_mean d v i c =
     (case find (\<lambda>x. x \<notin> set (columns d)) [v, i, c] of
        Some x \<Rightarrow> Inl (KeyError x)
      | None \<Rightarrow>
          bind_e (row_keys [i, c] d) (\<lambda>ks.
          bind_e (map_e (\<lambda>r. int_cell r v) (rows d)) (\<lambda>vs.
            (let groups = sort (uniq ks);
                 totals = group_sum groups (zip ks vs);
                 counts = group_sum groups (zip ks (map (\<lambda>_. 1) vs));
                 means = map2 (\<lambda>(k, s) (k', n). (k, truediv s n)) totals counts;
                 header = sort (uniq (map (\<lambda>k. k ! 1) ks))
             in Inr \<lparr>columns = i # header,
                     rows = map (\<lambda>a. (i, StrV a) #
                                   map (\<lambda>b. (b, FloatV (case map_of means [a, b] of
                                                           Some m \<Rightarrow> m
                                                         | None \<Rightarrow> NaN))) header)
                                (sort (uniq (map (\<lambda>k. k ! 0) ks)))\<rparr>))))"

subsection \<open>Series arithmetic\<close>

text \<open>\<^verbatim>\<open>a / b\<close> on two Series, \<^verbatim>\<open>a / n\<close> by a scalar, \<^verbatim>\<open>a * 100\<close> and \<^verbatim>\<open>a.round(2)\<close>.\<close>

definition series_div :: "val list \<Rightarrow> val list \<Rightarrow> error + float64 list" where
  "series_div xs ys =
     bind_e (map_e as_float xs) (\<lambda>as. bind_e (map_e as_float ys) (\<lambda>bs. Inr (map2 fdiv as bs)))"

definition series_div_scalar :: "val list \<Rightarrow> int \<Rightarrow> error + float64 list" where
  "series_div_scalar xs n =
     bind_e (map_e as_float xs) (\<lambda>as. Inr (map (\<lambda>a. fdiv a (of_int_f n)) as))"

definition percent :: "float64 list \<Rightarrow> float64 list" where
  "percent xs = map (\<lambda>x. fmul x (Finite 100)) xs"

definition series_round :: "nat \<Rightarrow> float64 list \<Rightarrow> val list" where
  "series_round n xs = map (\<lambda>x. FloatV (fround n x)) xs"

text \<open>\<^verbatim>\<open>d.round(n)\<close> on a table rounds its float cells.\<close>

definition frame_round :: "nat \<Rightarrow> dataframe \<Rightarrow> dataframe" where
  "frame_round n d =
     \<lparr>columns = columns d,
      rows = map (map (\<lambda>(c, v). (c, case v of FloatV x \<Rightarrow> FloatV (fround n x) | _ \<Rightarrow> v)))
                 (rows d)\<rparr>"

text \<open>\<^verbatim>\<open>a.sum()\<close> on an integer Series.\<close>

definition series_sum :: "val list \<Rightarrow> error + int" where
  "series_sum xs = bind_e (map_e as_int xs) (\<lambda>ns. Inr (sum_list ns))"

text \<open>
  \<^verbatim>\<open>a.pct_change()\<close> divides the Series by itself shifted down one place (NaN comes in at
  the top) and subtracts one.
\<close>

definition shift :: "float64 list \<Rightarrow> float64 list" where
  "shift xs = take (length xs) (NaN # xs)"

definition pct_change :: "val list \<Rightarrow> error + float64 list" where
  "pct_change xs =
     bind_e (map_e as_float xs)
       (\<lambda>as. Inr (map2 (\<lambda>a b. fsub (fdiv a b) (Finite 1)) as (shift as)))"

text \<open>\<^verbatim>\<open>d.dropna()\<close>: the rows without a NaN, as a new table.\<close>

definition dropna :: "dataframe \<Rightarrow> dataframe" where
  "dropna d =
     \<lparr>columns = columns d,
      rows = filter (\<lambda>r. list_all (\<lambda>cv. snd cv \<noteq> FloatV NaN) r) (rows d)\<rparr>"

subsection \<open>Timestamps\<close>

fun digits :: "nat \<Rightarrow> string" where
  "digits n = (if n < 10 then [''0123456789'' ! n]
               else digits (n div 10) @ [''0123456789'' ! (n mod 10)])"

definition zero_pad :: "nat \<Rightarrow> string \<Rightarrow> string" where
  "zero_pad w s = replicate (w - length s) (CHR ''0'') @ s"

text \<open>\<^verbatim>\<open>.dt.strftime('%Y-%m')\<close> on one value of a Series.\<close>

fun strftime_Ym :: "val \<Rightarrow> error + val" where
  "strftime_Ym (DateV t) = Inr (StrV (digits (year t) @ ''-'' @ zero_pad 2 (digits (month t))))"
| "strftime_Ym v = Inl (AttributeError ''dt'')"

definition ts_le :: "timestamp \<Rightarrow> timestamp \<Rightarrow> bool" where
  "ts_le a b \<longleftrightarrow>
     year a < year b \<or>
     (year a = year b \<and> (month a < month b \<or> (month a = month b \<and> day a \<le> day b)))"

text \<open>
  \<^verbatim>\<open>series >= '2023-01-01'\<close> and \<^verbatim>\<open>series <= '2023-03-31'\<close>: pandas reads the string as
  a timestamp; \<open>lo\<close> and \<open>hi\<close> are the two timestamps.
\<close>

fun date_between :: "timestamp \<Rightarrow> timestamp \<Rightarrow> val \<Rightarrow> error + bool" where
  "date_between lo hi (DateV t) = Inr (ts_le lo t \<and> ts_le t hi)"
| "date_between lo hi v = Inl (TypeError ''Timestamp'')"

section \<open>The kernel's namespace and the cells\<close>

text \<open>
  The state of the notebook: the generator of numpy and the variables its cells bind.
  A variable a cell has not bound yet is \<open>None\<close>, and reading it raises NameError.
  \<open>others\<close> lists the bound names whose values the model does not compute (sorted
  tables, the correlation matrix, the time series for a plot).
\<close>

record 'g kernel =
  rng :: 'g
  others :: "string list"
  df :: "dataframe option"
  north_data :: "dataframe option"
  product_a_south :: "dataframe option"
  q1_data :: "dataframe option"
  profit_by_region_product :: "dataframe option"
  region_summary :: "dataframe option"
  pivot_table :: "dataframe option"
  monthly_sales :: "dataframe option"
  product_profit :: "dataframe option"
  total_profit :: "int option"
  product_monthly :: "dataframe option"
  region_product_sales :: "dataframe option"

definition fresh :: "'g \<Rightarrow> 'g kernel" where
  "fresh g =
     \<lparr>rng = g, others = [], df = None, north_data = None, product_a_south = None,
      q1_data = None, profit_by_region_product = None, region_summary = None,
      pivot_table = None, monthly_sales = None, product_profit = None, total_profit = None,
      product_monthly = None, region_product_sales = None\<rparr>"

definition bind_names :: "string list \<Rightarrow> 'g kernel \<Rightarrow> 'g kernel" where
  "bind_names ns s = s\<lparr>others := fold List.insert ns (others s)\<rparr>"

definition need_name :: "string \<Rightarrow> 'g kernel \<Rightarrow> error + unit" where
  "need_name n s = (if n \<in> set (others s) then Inr () else Inl (NameError n))"

text \<open>A cell that only shows or plots columns of a table reads them.\<close>

definition reads :: "dataframe \<Rightarrow> string list \<Rightarrow> error + unit" where
  "reads d cs =
     (case find (\<lambda>c. c \<notin> set (columns d)) cs of Some c \<Rightarrow> Inl (KeyError c) | None \<Rightarrow> Inr ())"

text \<open>
  Cell 3 seeds the generator, runs the three nested loops and builds \<^verbatim>\<open>df\<close> from the
  list of dicts.
\<close>

definition cell3 :: "('g, 'f) numpy \<Rightarrow> 'g kernel \<Rightarrow> error + 'g kernel" where
  "cell3 np s =
     bind_e (generate np (random_seed np 42))
       (\<lambda>(data, g). Inr (bind_names [''regions'', ''products'', ''months'', ''data'']
                           (s\<lparr>rng := g, df := Some (DataFrame data)\<rparr>)))"

text \<open>Cell 4 prints the shape, the dtypes and \<^verbatim>\<open>df.describe()\<close>.\<close>

definition cell4 :: "'g kernel \<Rightarrow> error + 'g kernel" where
  "cell4 s = bind_e (need ''df'' (df s)) (\<lambda>d. Inr s)"

text \<open>Cells 6 to 9: filters by a column, by two columns, by a date range; a projection.\<close>

definition cell6 :: "'g kernel \<Rightarrow> error + 'g kernel" where
  "cell6 s =
     bind_e (need ''df'' (df s)) (\<lambda>d.
     bind_e (column d ''region'') (\<lambda>r.
       Inr (s\<lparr>north_data := Some (select_rows d (map (\<lambda>v. v = StrV ''North'') r))\<rparr>)))"

definition cell7 :: "'g kernel \<Rightarrow> error + 'g kernel" where
  "cell7 s =
     bind_e (need ''df'' (df s)) (\<lambda>d.
     bind_e (column d ''product'') (\<lambda>p.
     bind_e (column d ''region'') (\<lambda>r.
       Inr (s\<lparr>product_a_south :=
                Some (select_rows d (map2 (\<lambda>a b. a = StrV ''Product A'' \<and> b = StrV ''South'') p r))\<rparr>))))"

definition cell8 :: "'g kernel \<Rightarrow> error + 'g kernel" where
  "cell8 s =
     bind_e (need ''df'' (df s)) (\<lambda>d.
     bind_e (column d ''date'') (\<lambda>t.
     bind_e (map_e (date_between (Timestamp 2023 1 1) (Timestamp 2023 3 31)) t) (\<lambda>keep.
       Inr (s\<lparr>q1_data := Some (select_rows d keep)\<rparr>))))"

definition cell9 :: "'g kernel \<Rightarrow> error + 'g kernel" where
  "cell9 s =
     bind_e (need ''df'' (df s)) (\<lambda>d.
     bind_e (select_columns d [''region'', ''product'', ''profit'']) (\<lambda>t.
       Inr (s\<lparr>profit_by_region_product := Some t\<rparr>)))"

text \<open>
  Cell 10 sorts a copy of \<^verbatim>\<open>df\<close> by profit and shows four columns of its first ten
  rows; the order numpy gives to equal keys is not modelled, so \<^verbatim>\<open>top_profit\<close> is a
  name only.
\<close>

definition cell10 :: "'g kernel \<Rightarrow> error + 'g kernel" where
  "cell10 s =
     bind_e (need ''df'' (df s)) (\<lambda>d.
     bind_e (reads d [''profit'', ''date'', ''region'', ''product'']) (\<lambda>u.
       Inr (bind_names [''top_profit''] s)))"

text \<open>Cell 11: totals by region, then the profit margin in percent, rounded.\<close>

definition add_profit_margin :: "dataframe \<Rightarrow> error + dataframe" where
  "add_profit_margin t =
     bind_e (column t ''profit'') (\<lambda>p.
     bind_e (column t ''sales'') (\<lambda>q.
     bind_e (series_div p q) (\<lambda>m.
       Inr (set_column t ''profit_margin'' (series_round 2 (percent m))))))"

definition cell11 :: "'g kernel \<Rightarrow> error + 'g kernel" where
  "cell11 s =
     bind_e (need ''df'' (df s)) (\<lambda>d.
     bind_e (groupby_sum [''region''] [''sales'', ''cost'', ''profit''] d) (\<lambda>t.
     bind_e (add_profit_margin t) (\<lambda>t'.
       Inr (s\<lparr>region_summary := Some t'\<rparr>))))"

text \<open>Cell 12: the pivot table of mean profit, then rounded for display.\<close>

definition cell12 :: "'g kernel \<Rightarrow> error + 'g kernel" where
  "cell12 s =
     bind_e (need ''df'' (df s)) (\<lambda>d.
     bind_e (pivot_table_mean d ''profit'' ''region'' ''product'') (\<lambda>t.
       Inr (s\<lparr>pivot_table := Some (frame_round 2 t)\<rparr>)))"

text \<open>Cell 13 adds the column \<^verbatim>\<open>month\<close> to \<^verbatim>\<open>df\<close> itself, then totals by month.\<close>

definition cell13 :: "'g kernel \<Rightarrow> error + 'g kernel" where
  "cell13 s =
     bind_e (need ''df'' (df s)) (\<lambda>d.
     bind_e (column d ''date'') (\<lambda>t.
     bind_e (map_e strftime_Ym t) (\<lambda>m.
       (let d' = set_column d ''month'' m
        in bind_e (groupby_sum [''month''] [''sales'', ''profit''] d') (\<lambda>ms.
             Inr (s\<lparr>df := Some d', monthly_sales := Some ms\<rparr>))))))"

text \<open>Cell 14: profit by product and each product's share of the total, in percent.\<close>

definition cell14 :: "'g kernel \<Rightarrow> error + 'g kernel" where
  "cell14 s =
     bind_e (need ''df'' (df s)) (\<lambda>d.
     bind_e (groupby_sum [''product''] [''profit''] d) (\<lambda>pp.
     bind_e (column pp ''profit'') (\<lambda>p.
     bind_e (series_sum p) (\<lambda>total.
     bind_e (series_div_scalar p total) (\<lambda>q.
       Inr (s\<lparr>product_profit :=
                 Some (set_column pp ''contribution_percentage'' (series_round 2 (percent q))),
               total_profit := Some total\<rparr>))))))"

text \<open>Cells 16 to 19 draw charts of tables bound before.\<close>

definition cell16 :: "'g kernel \<Rightarrow> error + 'g kernel" where
  "cell16 s =
     bind_e (need ''region_summary'' (region_summary s)) (\<lambda>t.
     bind_e (reads t [''region'', ''sales'']) (\<lambda>u. Inr s))"

definition cell17 :: "'g kernel \<Rightarrow> error + 'g kernel" where
  "cell17 s =
     bind_e (need ''monthly_sales'' (monthly_sales s)) (\<lambda>t.
     bind_e (reads t [''month'', ''sales'']) (\<lambda>u. Inr s))"

definition cell18 :: "'g kernel \<Rightarrow> error + 'g kernel" where
  "cell18 s =
     bind_e (need ''product_profit'' (product_profit s)) (\<lambda>t.
     bind_e (reads t [''profit'', ''product'']) (\<lambda>u. Inr s))"

definition cell19 :: "'g kernel \<Rightarrow> error + 'g kernel" where
  "cell19 s = bind_e (need ''pivot_table'' (pivot_table s)) (\<lambda>t. Inr s)"

text \<open>
  Cell 20 groups \<^verbatim>\<open>df\<close> by the column \<^verbatim>\<open>month\<close> and by product, reshapes the result
  for the plot and draws one line per product.
\<close>

definition cell20 :: "'g kernel \<Rightarrow> error + 'g kernel" where
  "cell20 s =
     bind_e (need ''df'' (df s)) (\<lambda>d.
     bind_e (groupby_sum [''month'', ''product''] [''sales''] d) (\<lambda>t.
     bind_e (need_name ''products'' s) (\<lambda>u.
       Inr (bind_names [''product_monthly_pivot''] (s\<lparr>product_monthly := Some t\<rparr>)))))"

definition cell21 :: "'g kernel \<Rightarrow> error + 'g kernel" where
  "cell21 s =
     bind_e (need ''df'' (df s)) (\<lambda>d.
     bind_e (groupby_sum [''region'', ''product''] [''sales''] d) (\<lambda>t.
       Inr (s\<lparr>region_product_sales := Some t\<rparr>)))"

text \<open>Cells 22 and 23 draw a box plot and a scatter plot of \<^verbatim>\<open>df\<close>.\<close>

definition cell22 :: "'g kernel \<Rightarrow> error + 'g kernel" where
  "cell22 s =
     bind_e (need ''df'' (df s)) (\<lambda>d.
     bind_e (reads d [''region'', ''profit'']) (\<lambda>u. Inr s))"

definition cell23 :: "'g kernel \<Rightarrow> error + 'g kernel" where
  "cell23 s =
     bind_e (need ''df'' (df s)) (\<lambda>d.
     bind_e (reads d [''sales'', ''profit'', ''product'', ''cost'']) (\<lambda>u. Inr s))"

text \<open>
  Cell 25 totals by region and product, adds the margin and sorts by it; the sorted
  table \<^verbatim>\<open>profit_analysis\<close> is a name only. Cells 26, 29 and 30 use it.
\<close>

definition cell25 :: "'g kernel \<Rightarrow> error + 'g kernel" where
  "cell25 s =
     bind_e (need ''df'' (df s)) (\<lambda>d.
     bind_e (groupby_sum [''region'', ''product''] [''sales'', ''cost'', ''profit''] d) (\<lambda>t.
     bind_e (add_profit_margin t) (\<lambda>t'.
       Inr (bind_names [''profit_analysis''] s))))"

definition cell26 :: "'g kernel \<Rightarrow> error + 'g kernel" where
  "cell26 s = bind_e (need_name ''profit_analysis'' s) (\<lambda>u. Inr s)"

text \<open>
  Cell 27 plots the monthly sales, adds the month-over-month growth rate to
  \<^verbatim>\<open>monthly_sales\<close> and shows its rows that have one. \<open>cell27_shown\<close> is the table the
  cell displays.
\<close>

definition growth_rate :: "dataframe \<Rightarrow> error + dataframe" where
  "growth_rate t =
     bind_e (column t ''sales'') (\<lambda>x.
     bind_e (pct_change x) (\<lambda>g.
       Inr (set_column t ''growth_rate'' (map FloatV (percent g)))))"

definition cell27_shown :: "dataframe \<Rightarrow> error + dataframe" where
  "cell27_shown t =
     bind_e (select_columns t [''month'', ''sales'', ''growth_rate'']) (\<lambda>t'. Inr (dropna t'))"

definition cell27 :: "'g kernel \<Rightarrow> error + 'g kernel" where
  "cell27 s =
     bind_e (need ''monthly_sales'' (monthly_sales s)) (\<lambda>t.
     bind_e (reads t [''month'', ''sales'']) (\<lambda>u.
     bind_e (growth_rate t) (\<lambda>t'.
     bind_e (cell27_shown t') (\<lambda>shown.
       Inr (bind_names [''monthly_sales_ts''] (s\<lparr>monthly_sales := Some t'\<rparr>))))))"

definition cell28 :: "'g kernel \<Rightarrow> error + 'g kernel" where
  "cell28 s =
     bind_e (need ''df'' (df s)) (\<lambda>d.
     bind_e (select_columns d [''sales'', ''cost'', ''profit'']) (\<lambda>t.
       Inr (bind_names [''correlation''] s)))"

definition cell29 :: "'g kernel \<Rightarrow> error + 'g kernel" where
  "cell29 s =
     bind_e (need_name ''profit_analysis'' s) (\<lambda>u.
       Inr (bind_names [''best_products'', ''worst_products''] s))"

definition cell30 :: "'g kernel \<Rightarrow> error + 'g kernel" where
  "cell30 s = bind_e (need_name ''worst_products'' s) (\<lambda>u. Inr s)"

text \<open>
  The code cells in the order of the file. Cell 1 imports the libraries, which the model
  takes as given. ``Run all'' stops at the first exception.
\<close>

datatype code_cell =
    Cell1 | Cell3 | Cell4 | Cell6 | Cell7 | Cell8 | Cell9 | Cell10 | Cell11 | Cell12
  | Cell13 | Cell14 | Cell16 | Cell17 | Cell18 | Cell19 | Cell20 | Cell21 | Cell22
  | Cell23 | Cell25 | Cell26 | Cell27 | Cell28 | Cell29 | Cell30

fun exec :: "('g, 'f) numpy \<Rightarrow> code_cell \<Rightarrow> 'g kernel \<Rightarrow> error + 'g kernel" where
  "exec np Cell1 s = Inr s"
| "exec np Cell3 s = cell3 np s"
| "exec np Cell4 s = cell4 s"
| "exec np Cell6 s = cell6 s"
| "exec np Cell7 s = cell7 s"
| "exec np Cell8 s = cell8 s"
| "exec np Cell9 s = cell9 s"
| "exec np Cell10 s = cell10 s"
| "exec np Cell11 s = cell11 s"
| "exec np Cell12 s = cell12 s"
| "exec np Cell13 s = cell13 s"
| "exec np Cell14 s = cell14 s"
| "exec np Cell16 s = cell16 s"
| "exec np Cell17 s = cell17 s"
| "exec np Cell18 s = cell18 s"
| "exec np Cell19 s = cell19 s"
| "exec np Cell20 s = cell20 s"
| "exec np Cell21 s = cell21 s"
| "exec np Cell22 s = cell22 s"
| "exec np Cell23 s = cell23 s"
| "exec np Cell25 s = cell25 s"
| "exec np Cell26 s = cell26 s"
| "exec np Cell27 s = cell27 s"
| "exec np Cell28 s = cell28 s"
| "exec np Cell29 s = cell29 s"
| "exec np Cell30 s = cell30 s"

definition analysis :: "code_cell list" where
  "analysis =
     [Cell4, Cell6, Cell7, Cell8, Cell9, Cell10, Cell11, Cell12, Cell13, Cell14, Cell16,
      Cell17, Cell18, Cell19, Cell20, Cell21, Cell22, Cell23, Cell25, Cell26, Cell27,
      Cell28, Cell29, Cell30]"

definition notebook :: "code_cell list" where
  "notebook = Cell1 # Cell3 # analysis"

definition run :: "('g, 'f) numpy \<Rightarrow> code_cell list \<Rightarrow> 'g kernel \<Rightarrow> error + 'g kernel" where
  "run np cs s = for_each (exec np) cs s"

section \<open>The generated table: shape and determinism\<close>

lemma bind_e_simps [simp]: "bind_e (Inr x) f = f x" "bind_e (Inl e) f = Inl e"
  by (simp_all add: bind_e_def)

lemma bind_e_Inr_iff: "bind_e m f = Inr y \<longleftrightarrow> (\<exists>x. m = Inr x \<and> f x = Inr y)"
  by (cases m) simp_all

definition sale :: "timestamp \<Rightarrow> string \<Rightarrow> string \<Rightarrow> int \<Rightarrow> int \<Rightarrow> pyrow" where
  "sale t a b s c =
     [(''date'', DateV t), (''region'', StrV a), (''product'', StrV b), (''sales'', IntV s),
      (''cost'', IntV c), (''profit'', IntV (s - c))]"

lemma base_sales_lookup:
  assumes "region \<in> set regions" "product \<in> set products"
  shows "\<exists>by_product base. map_of base_sales region = Some by_product \<and>
           map_of by_product product = Some base"
  using assms by (auto simp: regions_def products_def base_sales_def)

lemma loop_body_appends:
  assumes "region \<in> set regions" "product \<in> set products"
  shows "\<exists>s c g'. loop_body np region product t (data, g) = Inr (data @ [sale t region product s c], g')"
proof -
  from base_sales_lookup[OF assms] obtain bp base where
    "map_of base_sales region = Some bp" "map_of bp product = Some base" by blast
  then show ?thesis
    by (simp add: loop_body_def sale_def Let_def split: prod.splits)
qed

lemma for_each_appends:
  assumes step: "\<And>x data g. x \<in> set xs \<Longrightarrow> P data \<Longrightarrow>
            \<exists>new g'. body x (data, g) = Inr (data @ new, g') \<and> P (data @ new) \<and> map key new = K x"
    and "P data"
  shows "\<exists>new g'. for_each body xs (data, g) = Inr (data @ new, g') \<and> P (data @ new)
            \<and> map key new = concat (map K xs)"
  using assms
proof (induction xs arbitrary: data g)
  case Nil
  then show ?case by simp
next
  case (Cons x xs)
  from Cons.prems(1)[of x data g] Cons.prems(2)
  obtain new g' where b: "body x (data, g) = Inr (data @ new, g')" "P (data @ new)" "map key new = K x"
    by auto
  have "\<exists>new' g''. for_each body xs (data @ new, g') = Inr ((data @ new) @ new', g'') \<and> P ((data @ new) @ new')
            \<and> map key new' = concat (map K xs)"
    by (rule Cons.IH) (use Cons.prems b in auto)
  then obtain new' g'' where r: "for_each body xs (data @ new, g') = Inr ((data @ new) @ new', g'')"
     "P ((data @ new) @ new')" "map key new' = concat (map K xs)" by blast
  show ?case
    by (rule exI[of _ "new @ new'"], rule exI[of _ g'']) (use b r in simp)
qed


definition is_sale :: "pyrow \<Rightarrow> bool" where
  "is_sale r \<longleftrightarrow> (\<exists>t a b s c. r = sale t a b s c)"

definition key3 :: "pyrow \<Rightarrow> string \<times> string \<times> timestamp" where
  "key3 r = (case (cell r ''region'', cell r ''product'', cell r ''date'') of
               (StrV a, StrV b, DateV t) \<Rightarrow> (a, b, t) | _ \<Rightarrow> ([], [], Timestamp 0 0 0))"

lemma is_sale_sale [simp]: "is_sale (sale t a b s c)"
  unfolding is_sale_def by blast

lemma key3_sale [simp]: "key3 (sale t a b s c) = (a, b, t)"
  by (simp add: key3_def sale_def cell_def)

lemma months_eq:
  "months = [Timestamp 2023 1 31, Timestamp 2023 2 28, Timestamp 2023 3 31,
     Timestamp 2023 4 30, Timestamp 2023 5 31, Timestamp 2023 6 30,
     Timestamp 2023 7 31, Timestamp 2023 8 31, Timestamp 2023 9 30,
     Timestamp 2023 10 31, Timestamp 2023 11 30, Timestamp 2023 12 31]"
  by code_simp

lemma generate_rows:
  "\<exists>data g'. generate np g = Inr (data, g') \<and> list_all is_sale data \<and>
       map key3 data = List.product regions (List.product products months)"
proof -
  let ?P = "list_all is_sale"
  have inner: "\<exists>new g'. for_each (\<lambda>mth. loop_body np r p mth) months (data, g) = Inr (data @ new, g')
        \<and> ?P (data @ new) \<and> map key3 new = concat (map (\<lambda>t. [(r, p, t)]) months)"
    if "r \<in> set regions" "p \<in> set products" "?P data" for r p data g
  proof (rule for_each_appends[where P = ?P and key = key3])
    fix x data g assume "x \<in> set months" "?P data"
    from loop_body_appends[OF that(1,2), of np x data g]
    obtain s c g' where "loop_body np r p x (data, g) = Inr (data @ [sale x r p s c], g')" by blast
    then show "\<exists>new g'. loop_body np r p x (data, g) = Inr (data @ new, g') \<and> ?P (data @ new)
          \<and> map key3 new = [(r, p, x)]"
      using \<open>?P data\<close> by (intro exI[of _ "[sale x r p s c]"] exI[of _ g']) simp
  qed (rule that)
  have middle: "\<exists>new g'. for_each (\<lambda>p. for_each (\<lambda>mth. loop_body np r p mth) months) products (data, g)
        = Inr (data @ new, g') \<and> ?P (data @ new)
        \<and> map key3 new = concat (map (\<lambda>p. concat (map (\<lambda>t. [(r, p, t)]) months)) products)"
    if "r \<in> set regions" "?P data" for r data g
    by (rule for_each_appends[where P = ?P and key = key3]) (use inner that in blast)+
  have outer: "\<exists>new g'. for_each (\<lambda>r. for_each (\<lambda>p. for_each (\<lambda>mth. loop_body np r p mth) months) products)
           regions ([], g) = Inr ([] @ new, g') \<and> ?P ([] @ new)
        \<and> map key3 new = concat (map (\<lambda>r. concat (map (\<lambda>p. concat (map (\<lambda>t. [(r, p, t)]) months)) products)) regions)"
    by (rule for_each_appends[where P = ?P and key = key3]) (use middle in auto)
  have prod: "concat (map (\<lambda>r. concat (map (\<lambda>p. concat (map (\<lambda>t. [(r, p, t)]) months)) products)) regions)
      = List.product regions (List.product products months)"
    by (simp add: regions_def products_def months_eq)
  from outer prod show ?thesis
    by (auto simp: generate_def)
qed


definition sale_columns :: "string list" where
  "sale_columns = [''date'', ''region'', ''product'', ''sales'', ''cost'', ''profit'']"

lemma set_uniq [simp]: "set (uniq xs) = set xs"
  by (induction xs) auto

lemma distinct_uniq [simp]: "distinct (uniq xs)"
  by (induction xs) auto

lemma uniq_append: "uniq (xs @ ys) = uniq xs @ filter (\<lambda>y. y \<notin> set xs) (uniq ys)"
  by (induction xs) (auto simp: filter_filter conj_commute intro: filter_cong)

lemma uniq_distinct: "distinct xs \<Longrightarrow> uniq xs = xs"
  by (induction xs) (auto simp: filter_id_conv)

lemma fst_sale [simp]: "map fst (sale t a b s c) = sale_columns"
  by (simp add: sale_def sale_columns_def)

lemma fst_is_sale: "is_sale x \<Longrightarrow> map fst x = sale_columns"
  by (auto simp: is_sale_def)

lemma keys_is_sale: "list_all is_sale data \<Longrightarrow> set (concat (map (map fst) data)) \<subseteq> set sale_columns"
proof (induction data)
  case Nil
  then show ?case by simp
next
  case (Cons x xs)
  then have "map fst x = sale_columns" by (simp add: fst_is_sale)
  then have "set (map fst x) = set sale_columns" by simp
  with Cons show ?case by (simp del: set_map)
qed

lemma DataFrame_sales:
  assumes "list_all is_sale data" "data \<noteq> []"
  shows "DataFrame data = \<lparr>columns = sale_columns, rows = data\<rparr>"
proof -
  obtain r rs where d: "data = r # rs" using assms(2) by (cases data) auto
  then obtain t a b s c where r: "r = sale t a b s c" using assms(1) by (auto simp: is_sale_def)
  have "set (uniq (concat (map (map fst) rs))) \<subseteq> set sale_columns"
    using keys_is_sale[of rs] assms(1) d by simp
  then have "filter (\<lambda>y. y \<notin> set sale_columns) (uniq (concat (map (map fst) rs))) = []"
    by (auto simp: filter_empty_conv)
  moreover have "uniq sale_columns = sale_columns"
    by (simp add: uniq_distinct sale_columns_def)
  ultimately have cols: "uniq (concat (map (map fst) data)) = sale_columns"
    by (simp add: d r uniq_append)
  have row: "map (\<lambda>c. (c, case map_of x c of Some v \<Rightarrow> v | None \<Rightarrow> FloatV NaN)) sale_columns = x"
    if "is_sale x" for x
    using that unfolding is_sale_def by (elim exE) (simp add: sale_def sale_columns_def)
  have "map (\<lambda>d. map (\<lambda>c. (c, case map_of d c of Some v \<Rightarrow> v | None \<Rightarrow> FloatV NaN)) sale_columns) data = data"
    using assms(1) by (induction data) (auto simp: row)
  then show ?thesis
    by (simp add: DataFrame_def cols)
qed

lemma cell3_result:
  "\<exists>data g'. generate np (random_seed np 42) = Inr (data, g') \<and> list_all is_sale data \<and>
      map key3 data = List.product regions (List.product products months) \<and>
      (\<forall>s. cell3 np s = Inr (bind_names [''regions'', ''products'', ''months'', ''data'']
                           (s\<lparr>rng := g', df := Some \<lparr>columns = sale_columns, rows = data\<rparr>\<rparr>)))"
proof -
  from generate_rows[of np "random_seed np 42"] obtain data g'
    where g: "generate np (random_seed np 42) = Inr (data, g')" "list_all is_sale data"
      "map key3 data = List.product regions (List.product products months)" by blast
  have "length data = length regions * (length products * length months)"
    using arg_cong[OF g(3), of length] by (simp only: length_map length_product)
  then have "data \<noteq> []" by (auto simp: regions_def products_def months_eq)
  with g show ?thesis
    by (auto simp: cell3_def DataFrame_sales)
qed

text \<open>
  Claim C8. Cell 3 seeds the generator with 42 before it draws, so the table it builds
  does not depend on the state it starts from: there is one table that every run of the
  cell produces, and any two runs give tables equal row for row in every field.
\<close>

theorem seeded_generation_deterministic:
  "\<exists>d. \<forall>s. \<exists>s'. cell3 np s = Inr s' \<and> df s' = Some d"
  using cell3_result[of np] by (auto simp: bind_names_def)

text \<open>
  A small generator with integer ``floats'', to run the model on concrete data.
\<close>

definition demo_numpy :: "(nat, int) numpy" where
  "demo_numpy =
     \<lparr>random_seed = (\<lambda>n. n),
      normal_noise = (\<lambda>g. (int (g mod 7), Suc g)),
      normal_cost = (\<lambda>g. (int (g mod 3), Suc g)),
      sales_int = (\<lambda>base m x. base + int m + x),
      cost_int = (\<lambda>sales x. (sales * 6) div 10 + x)\<rparr>"

lemma cell_sale [simp]:
  "cell (sale t a b s c) ''date'' = DateV t"
  "cell (sale t a b s c) ''region'' = StrV a"
  "cell (sale t a b s c) ''product'' = StrV b"
  "cell (sale t a b s c) ''sales'' = IntV s"
  "cell (sale t a b s c) ''cost'' = IntV c"
  "cell (sale t a b s c) ''profit'' = IntV (s - c)"
  by (simp_all add: cell_def sale_def)

lemma count_filter_key: "length (filter (\<lambda>x. f x = k) xs) = count_list (map f xs) k"
  by (induction xs) auto

lemma count_distinct: "distinct ys \<Longrightarrow> k \<in> set ys \<Longrightarrow> count_list ys k = 1"
  by (induction ys) (auto simp: count_list_0_iff)

lemma all_keys_distinct: "distinct (List.product regions (List.product products months))"
  by (intro distinct_product) (simp_all add: regions_def products_def months_eq)

lemma filter_sales_key:
  assumes "list_all is_sale data"
  shows "filter (\<lambda>r. cell r ''region'' = StrV a \<and> cell r ''product'' = StrV b \<and> cell r ''date'' = DateV t) data
       = filter (\<lambda>r. key3 r = (a, b, t)) data"
  using assms by (intro filter_cong) (auto simp: list_all_iff is_sale_def)

text \<open>
  Claim C4. The regions are a fixed list of 4 distinct names, the products a fixed list of
  3, and the dates are the 12 month ends of 2023, one per calendar month. The generated
  table has 144 rows; every row carries a region, a product and a date of these lists, and
  every combination of a region, a product and a month is the key of exactly one row.
\<close>

theorem generated_table_shape:
  "length regions = 4 \<and> distinct regions \<and> length products = 3 \<and> distinct products \<and>
   length months = 12 \<and> distinct (map month months) \<and> list_all (\<lambda>t. year t = 2023) months \<and>
   (\<exists>s' d. cell3 np s = Inr s' \<and> df s' = Some d \<and> length (rows d) = 144 \<and>
      (\<forall>r\<in>set (rows d). \<exists>a\<in>set regions. \<exists>b\<in>set products. \<exists>t\<in>set months.
          cell r ''region'' = StrV a \<and> cell r ''product'' = StrV b \<and> cell r ''date'' = DateV t) \<and>
      (\<forall>a\<in>set regions. \<forall>b\<in>set products. \<forall>t\<in>set months.
          length (filter (\<lambda>r. cell r ''region'' = StrV a \<and> cell r ''product'' = StrV b \<and>
                              cell r ''date'' = DateV t) (rows d)) = 1))"
proof -
  from cell3_result[of np] obtain data g' where
    sales: "list_all is_sale data"
    and keys: "map key3 data = List.product regions (List.product products months)"
    and c3: "\<And>s. cell3 np s = Inr (bind_names [''regions'', ''products'', ''months'', ''data'']
                           (s\<lparr>rng := g', df := Some \<lparr>columns = sale_columns, rows = data\<rparr>\<rparr>))"
    by blast
  have "length data = length regions * (length products * length months)"
    using arg_cong[OF keys, of length] by (simp only: length_map length_product)
  then have len: "length data = 144"
    by (simp add: regions_def products_def months_eq)
  have member: "\<exists>a\<in>set regions. \<exists>b\<in>set products. \<exists>t\<in>set months.
          cell r ''region'' = StrV a \<and> cell r ''product'' = StrV b \<and> cell r ''date'' = DateV t"
    if "r \<in> set data" for r
  proof -
    from that sales obtain t a b s c where r: "r = sale t a b s c"
      by (auto simp: list_all_iff is_sale_def)
    from that have "key3 r \<in> set (map key3 data)" by simp
    then have "(a, b, t) \<in> set (List.product regions (List.product products months))"
      by (simp add: keys r)
    then show ?thesis by (auto simp: r)
  qed
  have once: "length (filter (\<lambda>r. cell r ''region'' = StrV a \<and> cell r ''product'' = StrV b \<and>
                              cell r ''date'' = DateV t) data) = 1"
    if "a \<in> set regions" "b \<in> set products" "t \<in> set months" for a b t
  proof -
    have "(a, b, t) \<in> set (List.product regions (List.product products months))"
      using that by simp
    then show ?thesis
      by (simp add: filter_sales_key[OF sales] count_filter_key keys count_distinct all_keys_distinct)
  qed
  have enum: "length regions = 4 \<and> distinct regions \<and> length products = 3 \<and> distinct products \<and>
   length months = 12 \<and> distinct (map month months) \<and> list_all (\<lambda>t. year t = 2023) months"
    by (simp add: regions_def products_def months_eq)
  show ?thesis
    using enum len member once by (simp add: c3 bind_names_def)
qed

theorem generated_table_shape_witness:
  "\<exists>s' d. cell3 demo_numpy (fresh 0) = Inr s' \<and> df s' = Some d \<and> length (rows d) = 144 \<and>
      length (filter (\<lambda>r. cell r ''region'' = StrV ''North'' \<and> cell r ''product'' = StrV ''Product A'' \<and>
                              cell r ''date'' = DateV (Timestamp 2023 1 31)) (rows d)) = 1"
proof -
  have "''North'' \<in> set regions" "''Product A'' \<in> set products" "Timestamp 2023 1 31 \<in> set months"
    by (simp_all add: regions_def products_def months_eq)
  with generated_table_shape[of demo_numpy "fresh 0"] show ?thesis by blast
qed

section \<open>Group-by as a partitioned sum\<close>

text \<open>The reading of a cell as a string or as an integer, and the sum of a column over
  the rows that satisfy a condition.\<close>

fun the_str :: "val \<Rightarrow> string" where
  "the_str (StrV s) = s"
| "the_str v = []"

fun the_int :: "val \<Rightarrow> int" where
  "the_int (IntV i) = i"
| "the_int v = 0"

definition row_key :: "string list \<Rightarrow> pyrow \<Rightarrow> string list" where
  "row_key keys r = map (\<lambda>c. the_str (cell r c)) keys"

definition total_where :: "dataframe \<Rightarrow> string \<Rightarrow> (pyrow \<Rightarrow> bool) \<Rightarrow> int" where
  "total_where d c P = sum_list (map (\<lambda>r. the_int (cell r c)) (filter P (rows d)))"

lemma add_at_map:
  "distinct groups \<Longrightarrow>
   add_at k v (map (\<lambda>g. (g, a g)) groups) = map (\<lambda>g. (g, (a(k := a k + v)) g)) groups"
  by (induction groups) auto

lemma group_sum_fold:
  "distinct groups \<Longrightarrow>
   foldl (\<lambda>out (k, v). add_at k v out) (map (\<lambda>g. (g, a g)) groups) kvs
     = map (\<lambda>g. (g, a g + sum_list (map snd (filter (\<lambda>kv. fst kv = g) kvs)))) groups"
proof (induction kvs arbitrary: a)
  case Nil
  then show ?case by simp
next
  case (Cons kv kvs)
  obtain k v where kv: "kv = (k, v)" by (cases kv)
  show ?case
    by (simp add: kv add_at_map[OF Cons.prems] Cons.IH[OF Cons.prems])
qed

lemma group_sum_eq:
  "distinct groups \<Longrightarrow>
   group_sum groups kvs = map (\<lambda>g. (g, sum_list (map snd (filter (\<lambda>kv. fst kv = g) kvs)))) groups"
  using group_sum_fold[of groups "\<lambda>g. 0" kvs] by (simp add: group_sum_def)

lemma sum_zip_filter:
  "sum_list (map snd (filter (\<lambda>kv. fst kv = g) (zip (map f xs) (map h xs))))
     = sum_list (map h (filter (\<lambda>x. f x = g) xs))"
  by (induction xs) auto

lemma map_e_Inr:
  "(\<And>x. x \<in> set xs \<Longrightarrow> f x = Inr (g x)) \<Longrightarrow> map_e f xs = Inr (map g xs)"
  by (induction xs) auto

lemma map_of_graph: "k \<in> set groups \<Longrightarrow> map_of (map (\<lambda>g. (g, h g)) groups) k = Some (h k)"
  by (induction groups) auto

lemma find_None_subset: "set cs \<subseteq> set (columns d) \<Longrightarrow> find (\<lambda>c. c \<notin> set (columns d)) cs = None"
  by (auto simp: find_None_iff)

lemma groupby_sum_eq:
  assumes cols: "set (keys @ vals) \<subseteq> set (columns d)"
    and strs: "\<And>r c. r \<in> set (rows d) \<Longrightarrow> c \<in> set keys \<Longrightarrow> \<exists>s. map_of r c = Some (StrV s)"
    and ints: "\<And>r c. r \<in> set (rows d) \<Longrightarrow> c \<in> set vals \<Longrightarrow> \<exists>i. map_of r c = Some (IntV i)"
  shows "groupby_sum keys vals d =
     Inr \<lparr>columns = keys @ vals,
          rows = map (\<lambda>k. zip keys (map StrV k) @
                           map (\<lambda>c. (c, IntV (total_where d c (\<lambda>r. row_key keys r = k)))) vals)
                     (sort (uniq (map (row_key keys) (rows d))))\<rparr>"
proof -
  let ?groups = "sort (uniq (map (row_key keys) (rows d)))"
  have dist: "distinct ?groups" by simp
  have keycell: "map_e (str_cell r) keys = Inr (row_key keys r)" if "r \<in> set (rows d)" for r
    unfolding row_key_def
  proof (rule map_e_Inr)
    fix c assume "c \<in> set keys"
    from strs[OF that this] obtain s where "map_of r c = Some (StrV s)" by blast
    then show "str_cell r c = Inr (the_str (cell r c))" by (simp add: str_cell_def cell_def)
  qed
  have ks: "row_keys keys d = Inr (map (row_key keys) (rows d))"
    unfolding row_keys_def by (rule map_e_Inr) (rule keycell)
  have col: "bind_e (map_e (\<lambda>r. int_cell r c) (rows d))
               (\<lambda>vs. Inr (c, group_sum ?groups (zip (map (row_key keys) (rows d)) vs)))
             = Inr (c, map (\<lambda>g. (g, total_where d c (\<lambda>r. row_key keys r = g))) ?groups)"
    if "c \<in> set vals" for c
  proof -
    have "map_e (\<lambda>r. int_cell r c) (rows d) = Inr (map (\<lambda>r. the_int (cell r c)) (rows d))"
    proof (rule map_e_Inr)
      fix r assume "r \<in> set (rows d)"
      from ints[OF this that] obtain i where "map_of r c = Some (IntV i)" by blast
      then show "int_cell r c = Inr (the_int (cell r c))" by (simp add: int_cell_def cell_def)
    qed
    then show ?thesis
      by (simp add: group_sum_eq[OF dist] sum_zip_filter total_where_def)
  qed
  have totals: "map_e (\<lambda>c. bind_e (map_e (\<lambda>r. int_cell r c) (rows d))
               (\<lambda>vs. Inr (c, group_sum ?groups (zip (map (row_key keys) (rows d)) vs)))) vals
       = Inr (map (\<lambda>c. (c, map (\<lambda>g. (g, total_where d c (\<lambda>r. row_key keys r = g))) ?groups)) vals)"
    by (rule map_e_Inr) (rule col)
  have row: "map (\<lambda>(c, tot). (c, case map_of tot k of Some n \<Rightarrow> IntV n | None \<Rightarrow> FloatV NaN))
                 (map (\<lambda>c. (c, map (\<lambda>g. (g, total_where d c (\<lambda>r. row_key keys r = g))) ?groups)) vals)
           = map (\<lambda>c. (c, IntV (total_where d c (\<lambda>r. row_key keys r = k)))) vals"
    if "k \<in> set ?groups" for k
    using that by (simp add: o_def map_of_graph)
  show ?thesis
    using row by (simp add: groupby_sum_def find_None_subset[OF cols] ks totals cong: map_cong)
qed

section \<open>The invariant of the sales table\<close>

text \<open>
  The derived-field identity of a row, and the shape the queries rely on: a date, two
  names and three integers, under the six labels of cell 3.
\<close>

fun is_date :: "val \<Rightarrow> bool" where
  "is_date (DateV t) = True"
| "is_date v = False"

definition profit_identity :: "pyrow \<Rightarrow> bool" where
  "profit_identity r \<longleftrightarrow>
     cell r ''sales'' = IntV (the_int (cell r ''sales'')) \<and>
     cell r ''cost'' = IntV (the_int (cell r ''cost'')) \<and>
     cell r ''profit'' = IntV (the_int (cell r ''sales'') - the_int (cell r ''cost''))"

definition sales_row :: "pyrow \<Rightarrow> bool" where
  "sales_row r \<longleftrightarrow>
     is_date (cell r ''date'') \<and>
     cell r ''region'' = StrV (the_str (cell r ''region'')) \<and>
     cell r ''product'' = StrV (the_str (cell r ''product'')) \<and>
     profit_identity r"

definition sales_table :: "dataframe \<Rightarrow> bool" where
  "sales_table d \<longleftrightarrow>
     list_all (\<lambda>c. c \<in> set (columns d)) sale_columns \<and> list_all sales_row (rows d)"

lemma cell_present: "cell r c = v \<Longrightarrow> v \<noteq> FloatV NaN \<Longrightarrow> map_of r c = Some v"
  by (auto simp: cell_def split: option.splits)

lemma profit_identityD:
  assumes "profit_identity r"
  obtains s c where "map_of r ''sales'' = Some (IntV s)" "map_of r ''cost'' = Some (IntV c)"
    "map_of r ''profit'' = Some (IntV (s - c))"
proof -
  from assms have "map_of r ''sales'' = Some (IntV (the_int (cell r ''sales'')))"
    "map_of r ''cost'' = Some (IntV (the_int (cell r ''cost'')))"
    "map_of r ''profit'' = Some (IntV (the_int (cell r ''sales'') - the_int (cell r ''cost'')))"
    unfolding profit_identity_def by (auto intro: cell_present)
  then show ?thesis by (rule that)
qed

lemma sales_rowD:
  assumes "sales_row r"
  obtains t a b where "map_of r ''date'' = Some (DateV t)" "map_of r ''region'' = Some (StrV a)"
    "map_of r ''product'' = Some (StrV b)" "profit_identity r"
proof -
  from assms obtain t where "cell r ''date'' = DateV t"
    unfolding sales_row_def by (cases "cell r ''date''") auto
  then have "map_of r ''date'' = Some (DateV t)" by (rule cell_present) simp
  moreover from assms have "map_of r ''region'' = Some (StrV (the_str (cell r ''region'')))"
    "map_of r ''product'' = Some (StrV (the_str (cell r ''product'')))" "profit_identity r"
    unfolding sales_row_def by (auto intro: cell_present)
  ultimately show ?thesis using that by blast
qed

lemma sales_row_sale [simp]: "sales_row (sale t a b s c)"
  by (simp add: sales_row_def profit_identity_def)

lemma is_sale_sales_row: "is_sale r \<Longrightarrow> sales_row r"
  by (auto simp: is_sale_def)

lemma sales_table_rows: "sales_table d \<Longrightarrow> r \<in> set (rows d) \<Longrightarrow> sales_row r"
  by (simp add: sales_table_def list_all_iff)

lemma sales_table_columns: "sales_table d \<Longrightarrow> c \<in> set sale_columns \<Longrightarrow> c \<in> set (columns d)"
  by (simp add: sales_table_def list_all_iff)

lemma sales_table_generated: "list_all is_sale data \<Longrightarrow> sales_table \<lparr>columns = sale_columns, rows = data\<rparr>"
  by (auto simp: sales_table_def list_all_iff is_sale_sales_row)

lemma sales_row_str:
  "sales_row r \<Longrightarrow> c \<in> {''region'', ''product''} \<Longrightarrow> \<exists>s. map_of r c = Some (StrV s)"
  by (erule sales_rowD) auto

lemma sales_row_int:
  "sales_row r \<Longrightarrow> c \<in> {''sales'', ''cost'', ''profit''} \<Longrightarrow> \<exists>i. map_of r c = Some (IntV i)"
  by (erule sales_rowD, erule profit_identityD) auto

lemma sales_row_profit:
  "sales_row r \<Longrightarrow> the_int (cell r ''profit'') = the_int (cell r ''sales'') - the_int (cell r ''cost'')"
  by (erule sales_rowD, erule profit_identityD) (simp add: cell_def)

lemma total_where_profit:
  assumes "sales_table d"
  shows "total_where d ''profit'' P = total_where d ''sales'' P - total_where d ''cost'' P"
proof -
  have "map (\<lambda>r. the_int (cell r ''profit'')) (filter P (rows d))
      = map (\<lambda>r. the_int (cell r ''sales'') - the_int (cell r ''cost'')) (filter P (rows d))"
    using assms by (intro map_cong) (auto simp: sales_row_profit sales_table_rows)
  then have "total_where d ''profit'' P
      = sum_list (map (\<lambda>r. the_int (cell r ''sales'') - the_int (cell r ''cost'')) (filter P (rows d)))"
    unfolding total_where_def by (rule arg_cong)
  also have "\<dots> = total_where d ''sales'' P - total_where d ''cost'' P"
    unfolding total_where_def by (rule sum_list_subtractf)
  finally show ?thesis .
qed

section \<open>Rounding to float64\<close>

text \<open>
  The exponent that \<open>float64_of\<close> computes is the one that brackets its argument, so a
  value of \<open>float64_of\<close> is settled by two comparisons for the exponent and two for the
  significand.
\<close>

lemma pow2_pos: "0 < pow2 k"
  by (simp add: pow2_def)

lemma pow2_add1: "pow2 (k + 1) = 2 * pow2 k"
proof -
  consider "0 \<le> k" | "k = - 1" | "k < - 1" by linarith
  then show ?thesis
  proof cases
    case 1
    then have "nat (k + 1) = Suc (nat k)" by simp
    with 1 show ?thesis by (simp add: pow2_def)
  next
    case 2
    then show ?thesis by (simp add: pow2_def)
  next
    case 3
    then have "nat (- k) = Suc (nat (- (k + 1)))" by simp
    with 3 show ?thesis by (simp add: pow2_def)
  qed
qed

lemma pow2_mono: "k \<le> l \<Longrightarrow> pow2 k \<le> pow2 l"
proof (induction l rule: int_ge_induct)
  case base
  then show ?case by simp
next
  case (step i)
  from step.IH pow2_pos[of i] show ?case unfolding pow2_add1 by linarith
qed

lemma exponent_unique:
  assumes "pow2 k \<le> a" "a < pow2 (k + 1)" "pow2 l \<le> a" "a < pow2 (l + 1)"
  shows "k = l"
proof (rule ccontr)
  assume "k \<noteq> l"
  then consider "k + 1 \<le> l" | "l + 1 \<le> k" by linarith
  then show False
  proof cases
    case 1
    from pow2_mono[OF this] assms show False by linarith
  next
    case 2
    from pow2_mono[OF this] assms show False by linarith
  qed
qed

lemma bit_length_bounds:
  "0 < n \<Longrightarrow> 1 \<le> bit_length n \<and> 2 ^ nat (bit_length n - 1) \<le> n \<and> n < 2 ^ nat (bit_length n)"
proof (induction n rule: bit_length.induct)
  case (1 n)
  show ?case
  proof (cases "n = 1")
    case True
    then show ?thesis by (simp add: bit_length.simps[of 1] bit_length.simps[of 0])
  next
    case False
    with 1(2) have h: "0 < n div 2" by simp
    from 1(2) have "\<not> n \<le> 0" by simp
    from 1(1)[OF this h] have
      ih: "1 \<le> bit_length (n div 2)" "2 ^ nat (bit_length (n div 2) - 1) \<le> n div 2"
        "n div 2 < 2 ^ nat (bit_length (n div 2))"
      by simp_all
    let ?b = "bit_length (n div 2)"
    have b: "bit_length n = 1 + ?b" using 1(2) by (subst bit_length.simps) simp
    from ih(1) have n1: "nat (1 + ?b - 1) = Suc (nat (?b - 1))" and n2: "nat (1 + ?b) = Suc (nat ?b)"
      by simp_all
    have "2 * 2 ^ nat (?b - 1) \<le> 2 * (n div 2)" using ih(2) by simp
    also have "\<dots> \<le> n" by simp
    finally have lo: "2 ^ nat (1 + ?b - 1) \<le> n" unfolding n1 by simp
    have "n div 2 + 1 \<le> 2 ^ nat ?b" using ih(3) by simp
    then have "2 * (n div 2) + 2 \<le> 2 * 2 ^ nat ?b" by simp
    moreover have "n < 2 * (n div 2) + 2" by presburger
    ultimately have hi: "n < 2 ^ nat (1 + ?b)" unfolding n2 by simp
    from ih(1) lo hi show ?thesis unfolding b by simp
  qed
qed

lemma pow2_nonneg: "0 \<le> k \<Longrightarrow> pow2 k = 2 ^ nat k"
  by (simp add: pow2_def)

lemma pow2_neg: "0 \<le> k \<Longrightarrow> pow2 (- k) = 1 / 2 ^ nat k"
  by (cases "k = 0") (simp_all add: pow2_def)

lemma exponent_bounds:
  assumes "x \<noteq> 0"
  shows "pow2 (exponent x) \<le> \<bar>x\<bar> \<and> \<bar>x\<bar> < pow2 (exponent x + 1)"
proof (cases "1 \<le> \<bar>x\<bar>")
  case True
  let ?n = "\<lfloor>\<bar>x\<bar>\<rfloor>"
  from True have n: "0 < ?n" by simp
  note b = bit_length_bounds[OF n]
  have e: "exponent x = bit_length ?n - 1" using True by (simp add: exponent_def)
  from b have "(2::rat) ^ nat (bit_length ?n - 1) \<le> of_int ?n"
    by (metis of_int_le_iff of_int_numeral of_int_power)
  also have "\<dots> \<le> \<bar>x\<bar>" by simp
  finally have lo: "pow2 (exponent x) \<le> \<bar>x\<bar>" using b unfolding e by (simp add: pow2_nonneg)
  from b have "?n + 1 \<le> 2 ^ nat (bit_length ?n)" by simp
  then have "of_int (?n + 1) \<le> (2::rat) ^ nat (bit_length ?n)"
    by (metis of_int_le_iff of_int_numeral of_int_power)
  moreover have "\<bar>x\<bar> < of_int (?n + 1)" by linarith
  ultimately have "\<bar>x\<bar> < 2 ^ nat (bit_length ?n)" by simp
  then have hi: "\<bar>x\<bar> < pow2 (exponent x + 1)" using b unfolding e by (simp add: pow2_nonneg)
  from lo hi show ?thesis ..
next
  case False
  let ?y = "1 / \<bar>x\<bar>"
  let ?c = "\<lceil>?y\<rceil>"
  from False assms have x: "0 < \<bar>x\<bar>" "\<bar>x\<bar> < 1" by simp_all
  then have y: "1 < ?y" by simp
  then have c: "0 < ?c - 1" by linarith
  note b = bit_length_bounds[OF c]
  let ?b = "bit_length (?c - 1)"
  have e: "exponent x = - ?b" using False by (simp add: exponent_def)
  from b have "?c \<le> 2 ^ nat ?b" by simp
  then have "of_int ?c \<le> (2::rat) ^ nat ?b"
    by (metis of_int_le_iff of_int_numeral of_int_power)
  moreover have "?y \<le> of_int ?c" by (rule le_of_int_ceiling)
  ultimately have "?y \<le> 2 ^ nat ?b" by (rule order_trans[rotated])
  then have "1 \<le> 2 ^ nat ?b * \<bar>x\<bar>" using x(1) by (simp add: field_simps)
  then have lo: "pow2 (exponent x) \<le> \<bar>x\<bar>"
    using b unfolding e by (simp add: pow2_neg field_simps)
  from b have "(2::rat) ^ nat (?b - 1) \<le> of_int (?c - 1)"
    by (metis of_int_le_iff of_int_numeral of_int_power)
  moreover have "of_int (?c - 1) < ?y" by linarith
  ultimately have "2 ^ nat (?b - 1) < ?y" by simp
  then have "\<bar>x\<bar> < 1 / 2 ^ nat (?b - 1)" using x(1) by (simp add: field_simps)
  moreover have "0 \<le> ?b - 1" using b by simp
  then have "pow2 (- (?b - 1)) = 1 / 2 ^ nat (?b - 1)" by (rule pow2_neg)
  moreover have "exponent x + 1 = - (?b - 1)" unfolding e by simp
  ultimately have hi: "\<bar>x\<bar> < pow2 (exponent x + 1)" by simp
  from lo hi show ?thesis ..
qed

lemma exponent_eq:
  assumes "pow2 k \<le> \<bar>x\<bar>" "\<bar>x\<bar> < pow2 (k + 1)"
  shows "exponent x = k"
proof -
  from pow2_pos[of k] assms(1) have "0 < \<bar>x\<bar>" by (rule less_le_trans)
  then have "x \<noteq> 0" by simp
  from exponent_bounds[OF this] assms show ?thesis
    by (intro exponent_unique[of _ "\<bar>x\<bar>"]) simp_all
qed

lemma round_half_even_eq:
  assumes "of_int m - 1 / 2 < y" "y < of_int m + 1 / 2"
  shows "round_half_even y = m"
proof -
  have "\<lfloor>y\<rfloor> = m \<or> \<lfloor>y\<rfloor> = m - 1" using assms by linarith
  then show ?thesis
  proof
    assume f: "\<lfloor>y\<rfloor> = m"
    with assms(2) have "y - of_int m < 1 / 2" by simp
    with f show ?thesis by (simp add: round_half_even_def)
  next
    assume f: "\<lfloor>y\<rfloor> = m - 1"
    with assms(1) have "1 / 2 < y - of_int (m - 1)" by simp
    with f show ?thesis by (simp add: round_half_even_def Let_def)
  qed
qed

lemma float64_of_eq:
  assumes "pow2 k \<le> \<bar>x\<bar>" "\<bar>x\<bar> < pow2 (k + 1)"
    and "e = max (k - 52) (- 1074)"
    and "of_int m - 1 / 2 < x / pow2 e" "x / pow2 e < of_int m + 1 / 2"
    and "\<bar>of_int m * pow2 e\<bar> < pow2 1024"
  shows "float64_of x = Finite (of_int m * pow2 e)"
proof -
  from pow2_pos[of k] assms(1) have "0 < \<bar>x\<bar>" by (rule less_le_trans)
  then have "x \<noteq> 0" by simp
  moreover have "exponent x = k" using assms(1,2) by (rule exponent_eq)
  moreover have "round_half_even (x / pow2 e) = m" using assms(4,5) by (rule round_half_even_eq)
  ultimately show ?thesis
    using assms(3,6) by (simp add: float64_of_def Let_def)
qed

lemma float64_of_0 [simp]: "float64_of 0 = Finite 0"
  by (simp add: float64_of_def)

lemma of_int_f_0 [simp]: "of_int_f 0 = Finite 0"
  by (simp add: of_int_f_def)

lemma fdiv_NaN [simp]: "fdiv a NaN = NaN"
  by (cases a) simp_all

lemma truediv_0_0 [simp]: "truediv 0 0 = NaN"
  by (simp add: truediv_def inf_of_def)

subsection \<open>Float64 values of the examples\<close>

text \<open>The roundings that the examples below go through, each settled by \<open>float64_of_eq\<close>.\<close>

lemma fl_1506: "float64_of (1506) = Finite (1506)"
  using float64_of_eq[of "10" "1506" "- 42" "6623458045722624"] by (simp add: pow2_def)

lemma fl_3721: "float64_of (3721) = Finite (3721)"
  using float64_of_eq[of "11" "3721" "- 41" "8182565533908992"] by (simp add: pow2_def)

lemma fl_1506_3721: "float64_of (1506 / 3721) = Finite (7290965911120631 / 18014398509481984)"
  using float64_of_eq[of "- 2" "1506 / 3721" "- 54" "7290965911120631"] by (simp add: pow2_def)

lemma fl_margin: "float64_of (182274147778015775 / 4503599627370496) = Finite (5696067118062993 / 140737488355328)"
  using float64_of_eq[of "5" "182274147778015775 / 4503599627370496" "- 47" "5696067118062993"] by (simp add: pow2_def)

lemma fl_2215: "float64_of (2215) = Finite (2215)"
  using float64_of_eq[of "11" "2215" "- 41" "4870836511047680"] by (simp add: pow2_def)

lemma fl_2215_3721: "float64_of (2215 / 3721) = Finite (5361716299180677 / 9007199254740992)"
  using float64_of_eq[of "- 1" "2215 / 3721" "- 53" "5361716299180677"] by (simp add: pow2_def)

lemma fl_one_minus: "float64_of (3645482955560315 / 9007199254740992) = Finite (3645482955560315 / 9007199254740992)"
  using float64_of_eq[of "- 2" "3645482955560315 / 9007199254740992" "- 54" "7290965911120630"] by (simp add: pow2_def)

lemma fl_margin_alt: "float64_of (91137073889007875 / 2251799813685248) = Finite (356004194878937 / 8796093022208)"
  using float64_of_eq[of "5" "91137073889007875 / 2251799813685248" "- 47" "5696067118062992"] by (simp add: pow2_def)

lemma fl_1: "float64_of (1) = Finite (1)"
  using float64_of_eq[of "0" "1" "- 52" "4503599627370496"] by (simp add: pow2_def)

lemma fl_3: "float64_of (3) = Finite (3)"
  using float64_of_eq[of "1" "3" "- 51" "6755399441055744"] by (simp add: pow2_def)

lemma fl_third: "float64_of (1 / 3) = Finite (6004799503160661 / 18014398509481984)"
  using float64_of_eq[of "- 2" "1 / 3" "- 54" "6004799503160661"] by (simp add: pow2_def)

lemma fl_third_pct: "float64_of (150119987579016525 / 4503599627370496) = Finite (2345624805922133 / 70368744177664)"
  using float64_of_eq[of "5" "150119987579016525 / 4503599627370496" "- 47" "4691249611844266"] by (simp add: pow2_def)

lemma fl_two_thirds_pct: "float64_of (2345624805922133 / 35184372088832) = Finite (2345624805922133 / 35184372088832)"
  using float64_of_eq[of "6" "2345624805922133 / 35184372088832" "- 46" "4691249611844266"] by (simp add: pow2_def)

lemma fl_three_thirds_pct: "float64_of (7036874417766399 / 70368744177664) = Finite (7036874417766399 / 70368744177664)"
  using float64_of_eq[of "6" "7036874417766399 / 70368744177664" "- 46" "7036874417766399"] by (simp add: pow2_def)

lemma fl_6: "float64_of (6) = Finite (6)"
  using float64_of_eq[of "2" "6" "- 50" "6755399441055744"] by (simp add: pow2_def)

lemma fl_5: "float64_of (5) = Finite (5)"
  using float64_of_eq[of "2" "5" "- 50" "5629499534213120"] by (simp add: pow2_def)

lemma fl_6_5: "float64_of (6 / 5) = Finite (5404319552844595 / 4503599627370496)"
  using float64_of_eq[of "0" "6 / 5" "- 52" "5404319552844595"] by (simp add: pow2_def)

lemma fl_6_5_minus: "float64_of (900719925474099 / 4503599627370496) = Finite (900719925474099 / 4503599627370496)"
  using float64_of_eq[of "- 3" "900719925474099 / 4503599627370496" "- 55" "7205759403792792"] by (simp add: pow2_def)

lemma fl_growth: "float64_of (22517998136852475 / 1125899906842624) = Finite (5629499534213119 / 281474976710656)"
  using float64_of_eq[of "4" "22517998136852475 / 1125899906842624" "- 48" "5629499534213119"] by (simp add: pow2_def)

lemma fl_1_5: "float64_of (1 / 5) = Finite (3602879701896397 / 18014398509481984)"
  using float64_of_eq[of "- 3" "1 / 5" "- 55" "7205759403792794"] by (simp add: pow2_def)

lemma fl_growth_alt: "float64_of (90071992547409925 / 4503599627370496) = Finite (20)"
  using float64_of_eq[of "4" "90071992547409925 / 4503599627370496" "- 48" "5629499534213120"] by (simp add: pow2_def)

text \<open>The margin in exact arithmetic.\<close>

lemma margin_identity:
  "s \<noteq> 0 \<Longrightarrow> (of_int (s - c) / of_int s * 100 :: rat) = 100 * (1 - of_int c / of_int s)"
  by (simp add: diff_divide_distrib algebra_simps)

section \<open>Cell 11: the totals by region\<close>

lemma map_e_map: "map_e f (map g xs) = map_e (\<lambda>x. f (g x)) xs"
  by (induction xs) auto

lemma assign_fresh: "c \<notin> fst ` set r \<Longrightarrow> assign c v r = r @ [(c, v)]"
  by (induction r) auto

lemma map_of_assign: "map_of (assign c v r) c' = (if c' = c then Some v else map_of r c')"
  by (induction r) auto

lemma cell_assign: "cell (assign c v r) c' = (if c' = c then v else cell r c')"
  by (simp add: cell_def map_of_assign)

lemma add_profit_margin_eq:
  assumes "''profit'' \<in> set cs" "''sales'' \<in> set cs" "''profit_margin'' \<notin> set cs"
    and "\<And>g. g \<in> set gs \<Longrightarrow> cell (row g) ''profit'' = IntV (P g) \<and> cell (row g) ''sales'' = IntV (S g)
            \<and> ''profit_margin'' \<notin> fst ` set (row g)"
  shows "add_profit_margin \<lparr>columns = cs, rows = map row gs\<rparr> =
     Inr \<lparr>columns = cs @ [''profit_margin''],
          rows = map (\<lambda>g. row g @ [(''profit_margin'',
                     FloatV (fround 2 (fmul (truediv (P g) (S g)) (Finite 100))))]) gs\<rparr>"
proof -
  have p: "map_e (\<lambda>g. as_float (cell (row g) ''profit'')) gs = Inr (map (\<lambda>g. of_int_f (P g)) gs)"
    by (rule map_e_Inr) (simp add: assms(4))
  have q: "map_e (\<lambda>g. as_float (cell (row g) ''sales'')) gs = Inr (map (\<lambda>g. of_int_f (S g)) gs)"
    by (rule map_e_Inr) (simp add: assms(4))
  have div: "series_div (map (\<lambda>r. cell r ''profit'') (map row gs)) (map (\<lambda>r. cell r ''sales'') (map row gs))
         = Inr (map (\<lambda>g. truediv (P g) (S g)) gs)"
    by (simp add: series_div_def map_e_map p q map2_map_map truediv_def del: map_map)
  have rows: "map2 (\<lambda>r v. assign ''profit_margin'' v r) (map row gs)
          (series_round 2 (percent (map (\<lambda>g. truediv (P g) (S g)) gs)))
       = map (\<lambda>g. row g @ [(''profit_margin'',
                     FloatV (fround 2 (fmul (truediv (P g) (S g)) (Finite 100))))]) gs"
    by (simp add: series_round_def percent_def map2_map_map assign_fresh assms(4) cong: map_cong)
  show ?thesis
    using assms(1-3) by (simp add: add_profit_margin_def column_def div set_column_def rows del: map_map)
qed

text \<open>The row of the region summary for the region \<open>a\<close>, as the cell computes it.\<close>

definition summary_row :: "dataframe \<Rightarrow> string \<Rightarrow> pyrow" where
  "summary_row d a =
     (let S = total_where d ''sales'' (\<lambda>r. cell r ''region'' = StrV a);
          C = total_where d ''cost'' (\<lambda>r. cell r ''region'' = StrV a);
          P = total_where d ''profit'' (\<lambda>r. cell r ''region'' = StrV a)
      in [(''region'', StrV a), (''sales'', IntV S), (''cost'', IntV C), (''profit'', IntV P),
          (''profit_margin'', FloatV (fround 2 (fmul (truediv P S) (Finite 100))))])"

lemma total_where_cong:
  "(\<And>r. r \<in> set (rows d) \<Longrightarrow> P r = Q r) \<Longrightarrow> total_where d c P = total_where d c Q"
  unfolding total_where_def by (rule arg_cong[where f = sum_list], rule arg_cong[where f = "map _"]) (rule filter_cong, auto)

lemma region_key:
  assumes "sales_row r"
  shows "row_key [''region''] r = [the_str (cell r ''region'')]"
    and "row_key [''region''] r = [a] \<longleftrightarrow> cell r ''region'' = StrV a"
  using assms by (auto simp: row_key_def sales_row_def)

lemma cell11_result:
  assumes "sales_table d" "df s = Some d"
  shows "cell11 s = Inr (s\<lparr>region_summary :=
           Some \<lparr>columns = [''region'', ''sales'', ''cost'', ''profit'', ''profit_margin''],
                 rows = map (\<lambda>k. summary_row d (hd k))
                            (sort (uniq (map (row_key [''region'']) (rows d))))\<rparr>\<rparr>)"
proof -
  let ?groups = "sort (uniq (map (row_key [''region'']) (rows d)))"
  let ?T = "\<lambda>c k. total_where d c (\<lambda>r. cell r ''region'' = StrV (hd k))"
  let ?row = "\<lambda>k. [(''region'', StrV (hd k)), (''sales'', IntV (?T ''sales'' k)),
                   (''cost'', IntV (?T ''cost'' k)), (''profit'', IntV (?T ''profit'' k))]"
  have g: "groupby_sum [''region''] [''sales'', ''cost'', ''profit''] d =
     Inr \<lparr>columns = [''region''] @ [''sales'', ''cost'', ''profit''],
          rows = map (\<lambda>k. zip [''region''] (map StrV k) @
                           map (\<lambda>c. (c, IntV (total_where d c (\<lambda>r. row_key [''region''] r = k))))
                               [''sales'', ''cost'', ''profit''])
                     ?groups\<rparr>"
  proof (rule groupby_sum_eq)
    show "set ([''region''] @ [''sales'', ''cost'', ''profit'']) \<subseteq> set (columns d)"
      using sales_table_columns[OF assms(1)] by (auto simp: sale_columns_def)
  next
    fix r c assume "r \<in> set (rows d)" "c \<in> set [''region'']"
    then show "\<exists>s. map_of r c = Some (StrV s)"
      using sales_row_str[OF sales_table_rows[OF assms(1)]] by auto
  next
    fix r c assume "r \<in> set (rows d)" "c \<in> set [''sales'', ''cost'', ''profit'']"
    then show "\<exists>i. map_of r c = Some (IntV i)"
      using sales_row_int[OF sales_table_rows[OF assms(1)]] by auto
  qed
  have single: "\<exists>a. k = [a]" if "k \<in> set ?groups" for k
    using that by (auto simp: row_key_def)
  have tot: "total_where d c (\<lambda>r. row_key [''region''] r = k) = ?T c k" if "k \<in> set ?groups" for k c
  proof -
    from single[OF that] obtain a where "k = [a]" by blast
    then show ?thesis
      by (auto intro!: total_where_cong simp: region_key(2) sales_table_rows[OF assms(1)])
  qed
  have rows: "map (\<lambda>k. zip [''region''] (map StrV k) @
                           map (\<lambda>c. (c, IntV (total_where d c (\<lambda>r. row_key [''region''] r = k))))
                               [''sales'', ''cost'', ''profit'']) ?groups = map ?row ?groups"
  proof (rule map_cong[OF refl])
    fix k assume k: "k \<in> set ?groups"
    from single[OF k] obtain a where "k = [a]" by blast
    then show "zip [''region''] (map StrV k) @
                           map (\<lambda>c. (c, IntV (total_where d c (\<lambda>r. row_key [''region''] r = k))))
                               [''sales'', ''cost'', ''profit''] = ?row k"
      using tot[OF k] by simp
  qed
  have m: "add_profit_margin \<lparr>columns = [''region'', ''sales'', ''cost'', ''profit''], rows = map ?row ?groups\<rparr>
     = Inr \<lparr>columns = [''region'', ''sales'', ''cost'', ''profit''] @ [''profit_margin''],
          rows = map (\<lambda>k. ?row k @ [(''profit_margin'',
                     FloatV (fround 2 (fmul (truediv (?T ''profit'' k) (?T ''sales'' k)) (Finite 100))))]) ?groups\<rparr>"
    by (rule add_profit_margin_eq) (simp_all add: cell_def)
  have g': "groupby_sum [''region''] [''sales'', ''cost'', ''profit''] d =
     Inr \<lparr>columns = [''region'', ''sales'', ''cost'', ''profit''], rows = map ?row ?groups\<rparr>"
    unfolding g rows by simp
  show ?thesis
    unfolding cell11_def by (simp add: need_def assms(2) g' m summary_row_def Let_def)
qed

lemma cell3_sales_table:
  "\<exists>s1 d. cell3 np s = Inr s1 \<and> df s1 = Some d \<and> sales_table d \<and> rows d \<noteq> [] \<and>
      columns d = sale_columns \<and> ''products'' \<in> set (others s1)"
proof -
  from cell3_result[of np] obtain data g' where
    sales: "list_all is_sale data"
    and keys: "map key3 data = List.product regions (List.product products months)"
    and c3: "\<And>s. cell3 np s = Inr (bind_names [''regions'', ''products'', ''months'', ''data'']
                           (s\<lparr>rng := g', df := Some \<lparr>columns = sale_columns, rows = data\<rparr>\<rparr>))"
    by blast
  have "length data = length regions * (length products * length months)"
    using arg_cong[OF keys, of length] by (simp only: length_map length_product)
  then have "data \<noteq> []" by (auto simp: regions_def products_def months_eq)
  then show ?thesis
    using sales_table_generated[OF sales] by (simp add: c3 bind_names_def)
qed

lemma cell_summary_row [simp]:
  "cell (summary_row d a) ''region'' = StrV a"
  "cell (summary_row d a) ''sales'' = IntV (total_where d ''sales'' (\<lambda>r. cell r ''region'' = StrV a))"
  "cell (summary_row d a) ''cost'' = IntV (total_where d ''cost'' (\<lambda>r. cell r ''region'' = StrV a))"
  "cell (summary_row d a) ''profit'' = IntV (total_where d ''profit'' (\<lambda>r. cell r ''region'' = StrV a))"
  "cell (summary_row d a) ''profit_margin'' =
     FloatV (fround 2 (fmul (truediv (total_where d ''profit'' (\<lambda>r. cell r ''region'' = StrV a))
                                     (total_where d ''sales'' (\<lambda>r. cell r ''region'' = StrV a)))
                            (Finite 100)))"
  by (simp_all add: summary_row_def cell_def Let_def)

lemma distinct_filter_eq: "distinct xs \<Longrightarrow> x \<in> set xs \<Longrightarrow> length (filter (\<lambda>y. y = x) xs) = 1"
  by (induction xs) (auto simp: filter_empty_conv)

lemma sales_row_region: "sales_row r \<Longrightarrow> \<exists>a. cell r ''region'' = StrV a"
  by (erule sales_rowD) (simp add: cell_def)

lemma region_key_eq: "cell r ''region'' = StrV a \<Longrightarrow> row_key [''region''] r = [a]"
  by (simp add: row_key_def)

lemma region_groups:
  assumes "sales_table d"
  defines "groups \<equiv> sort (uniq (map (row_key [''region'']) (rows d)))"
  shows "distinct groups"
    and "k \<in> set groups \<Longrightarrow> \<exists>a. k = [a] \<and> (\<exists>r\<in>set (rows d). cell r ''region'' = StrV a)"
    and "r \<in> set (rows d) \<Longrightarrow> \<exists>a. cell r ''region'' = StrV a \<and> [a] \<in> set groups"
proof -
  show "distinct groups" by (simp add: groups_def)
  show "\<exists>a. k = [a] \<and> (\<exists>r\<in>set (rows d). cell r ''region'' = StrV a)"
    if "k \<in> set groups"
  proof -
    from that obtain r where r: "r \<in> set (rows d)" "k = row_key [''region''] r"
      by (auto simp: groups_def)
    then have "sales_row r" using assms(1) by (simp add: sales_table_rows)
    then obtain a where a: "cell r ''region'' = StrV a" using sales_row_region by blast
    then have "k = [a]" using r(2) by (simp add: region_key_eq)
    with a r(1) show ?thesis by blast
  qed
  show "\<exists>a. cell r ''region'' = StrV a \<and> [a] \<in> set groups"
    if "r \<in> set (rows d)"
  proof -
    from that have "sales_row r" using assms(1) by (simp add: sales_table_rows)
    then obtain a where a: "cell r ''region'' = StrV a" using sales_row_region by blast
    have "row_key [''region''] r \<in> set groups"
      using that by (simp add: groups_def)
    with a show ?thesis by (auto simp: region_key_eq)
  qed
qed

text \<open>
  Claim C5. On a sales table, cell 11 binds \<^verbatim>\<open>region_summary\<close> to a table with exactly
  one row for every region that occurs in \<^verbatim>\<open>df\<close>, and in the row of a region the values
  under sales, cost and profit are the sums of these columns over exactly the rows of
  \<^verbatim>\<open>df\<close> whose region is that key.
\<close>

theorem region_summary_partitioned_sums:
  assumes "sales_table d" "df s = Some d"
  shows "\<exists>t. cell11 s = Inr (s\<lparr>region_summary := Some t\<rparr>) \<and>
     (\<forall>r\<in>set (rows d). length (filter (\<lambda>q. cell q ''region'' = cell r ''region'') (rows t)) = 1) \<and>
     (\<forall>q\<in>set (rows t). \<exists>a. cell q ''region'' = StrV a \<and>
        (\<exists>r\<in>set (rows d). cell r ''region'' = StrV a) \<and>
        cell q ''sales'' = IntV (total_where d ''sales'' (\<lambda>r. cell r ''region'' = StrV a)) \<and>
        cell q ''cost'' = IntV (total_where d ''cost'' (\<lambda>r. cell r ''region'' = StrV a)) \<and>
        cell q ''profit'' = IntV (total_where d ''profit'' (\<lambda>r. cell r ''region'' = StrV a)))"
proof -
  let ?groups = "sort (uniq (map (row_key [''region'']) (rows d)))"
  let ?t = "\<lparr>columns = [''region'', ''sales'', ''cost'', ''profit'', ''profit_margin''],
                 rows = map (\<lambda>k. summary_row d (hd k)) ?groups\<rparr>"
  note grp = region_groups[OF assms(1)]
  have one: "length (filter (\<lambda>q. cell q ''region'' = cell r ''region'') (rows ?t)) = 1"
    if "r \<in> set (rows d)" for r
  proof -
    from grp(3)[OF that] obtain a where a: "cell r ''region'' = StrV a" "[a] \<in> set ?groups"
      by blast
    have "filter (\<lambda>k. hd k = a) ?groups = filter (\<lambda>k. k = [a]) ?groups"
    proof (rule filter_cong[OF refl])
      fix k assume "k \<in> set ?groups"
      from grp(2)[OF this] obtain b where "k = [b]" by blast
      then show "(hd k = a) = (k = [a])" by simp
    qed
    then have "length (filter (\<lambda>k. hd k = a) ?groups) = 1"
      using distinct_filter_eq[OF grp(1) a(2)] by simp
    then show ?thesis
      by (simp add: filter_map o_def a(1))
  qed
  have each: "\<exists>a. cell q ''region'' = StrV a \<and>
        (\<exists>r\<in>set (rows d). cell r ''region'' = StrV a) \<and>
        cell q ''sales'' = IntV (total_where d ''sales'' (\<lambda>r. cell r ''region'' = StrV a)) \<and>
        cell q ''cost'' = IntV (total_where d ''cost'' (\<lambda>r. cell r ''region'' = StrV a)) \<and>
        cell q ''profit'' = IntV (total_where d ''profit'' (\<lambda>r. cell r ''region'' = StrV a))"
    if "q \<in> set (rows ?t)" for q
  proof -
    from that obtain k where k: "k \<in> set ?groups" "q = summary_row d (hd k)" by auto
    from grp(2)[OF k(1)] obtain a r where "k = [a]" "r \<in> set (rows d)" "cell r ''region'' = StrV a"
      by blast
    then show ?thesis
      by (intro exI[of _ a]) (auto simp: k(2))
  qed
  show ?thesis
    by (intro exI[of _ ?t] conjI ballI) (rule cell11_result[OF assms], erule one, erule each)
qed

theorem region_summary_partitioned_sums_witness:
  "\<exists>s1 d t. cell3 demo_numpy (fresh 0) = Inr s1 \<and> df s1 = Some d \<and> sales_table d \<and> rows d \<noteq> [] \<and>
     cell11 s1 = Inr (s1\<lparr>region_summary := Some t\<rparr>) \<and>
     (\<forall>r\<in>set (rows d). length (filter (\<lambda>q. cell q ''region'' = cell r ''region'') (rows t)) = 1) \<and>
     (\<forall>q\<in>set (rows t). \<exists>a. cell q ''region'' = StrV a \<and>
        (\<exists>r\<in>set (rows d). cell r ''region'' = StrV a) \<and>
        cell q ''sales'' = IntV (total_where d ''sales'' (\<lambda>r. cell r ''region'' = StrV a)) \<and>
        cell q ''cost'' = IntV (total_where d ''cost'' (\<lambda>r. cell r ''region'' = StrV a)) \<and>
        cell q ''profit'' = IntV (total_where d ''profit'' (\<lambda>r. cell r ''region'' = StrV a)))"
proof -
  from cell3_sales_table[of demo_numpy "fresh 0"] obtain s1 d where
    s1: "cell3 demo_numpy (fresh 0) = Inr s1" "df s1 = Some d" "sales_table d" "rows d \<noteq> []"
    by blast
  from region_summary_partitioned_sums[OF s1(3,2)] s1 show ?thesis by blast
qed

text \<open>
  Claim C9, as the code has it. Summation by region keeps the identity of the rows: in
  every row of the region summary the summed profit is the summed sales minus the summed
  cost, as integers. The margin the cell stores is \<^verbatim>\<open>profit / sales * 100\<close> evaluated in
  float64 and rounded to two decimals by numpy. In exact arithmetic, when the sales are
  not zero, \<open>profit / sales * 100\<close> is \<open>100 * (1 - cost / sales)\<close>; the float64 values of
  the two expressions need not be equal.
\<close>

theorem region_summary_keeps_identity:
  assumes "sales_table d" "df s = Some d"
  shows "\<exists>t. cell11 s = Inr (s\<lparr>region_summary := Some t\<rparr>) \<and>
     (\<forall>q\<in>set (rows t). \<exists>S C P.
        cell q ''sales'' = IntV S \<and> cell q ''cost'' = IntV C \<and> cell q ''profit'' = IntV P \<and>
        P = S - C \<and>
        cell q ''profit_margin'' = FloatV (fround 2 (fmul (truediv P S) (Finite 100))) \<and>
        (S \<noteq> 0 \<longrightarrow> (of_int P / of_int S * 100 :: rat) = 100 * (1 - of_int C / of_int S)))"
proof -
  let ?groups = "sort (uniq (map (row_key [''region'']) (rows d)))"
  let ?t = "\<lparr>columns = [''region'', ''sales'', ''cost'', ''profit'', ''profit_margin''],
                 rows = map (\<lambda>k. summary_row d (hd k)) ?groups\<rparr>"
  have each: "\<exists>S C P.
        cell q ''sales'' = IntV S \<and> cell q ''cost'' = IntV C \<and> cell q ''profit'' = IntV P \<and>
        P = S - C \<and>
        cell q ''profit_margin'' = FloatV (fround 2 (fmul (truediv P S) (Finite 100))) \<and>
        (S \<noteq> 0 \<longrightarrow> (of_int P / of_int S * 100 :: rat) = 100 * (1 - of_int C / of_int S))"
    if "q \<in> set (rows ?t)" for q
  proof -
    from that obtain k where k: "q = summary_row d (hd k)" by auto
    let ?S = "total_where d ''sales'' (\<lambda>r. cell r ''region'' = StrV (hd k))"
    let ?C = "total_where d ''cost'' (\<lambda>r. cell r ''region'' = StrV (hd k))"
    let ?P = "total_where d ''profit'' (\<lambda>r. cell r ''region'' = StrV (hd k))"
    have P: "?P = ?S - ?C" by (rule total_where_profit[OF assms(1)])
    have "?S \<noteq> 0 \<longrightarrow> (of_int ?P / of_int ?S * 100 :: rat) = 100 * (1 - of_int ?C / of_int ?S)"
      unfolding P by (rule impI) (rule margin_identity)
    with P show ?thesis
      by (intro exI[of _ ?S] exI[of _ ?C] exI[of _ ?P]) (simp add: k)
  qed
  show ?thesis
    by (intro exI[of _ ?t] conjI ballI) (rule cell11_result[OF assms], erule each)
qed

theorem region_summary_keeps_identity_witness:
  "\<exists>s1 d t. cell3 demo_numpy (fresh 0) = Inr s1 \<and> df s1 = Some d \<and> sales_table d \<and> rows d \<noteq> [] \<and>
     cell11 s1 = Inr (s1\<lparr>region_summary := Some t\<rparr>) \<and>
     (\<forall>q\<in>set (rows t). \<exists>S C P.
        cell q ''sales'' = IntV S \<and> cell q ''cost'' = IntV C \<and> cell q ''profit'' = IntV P \<and>
        P = S - C \<and>
        cell q ''profit_margin'' = FloatV (fround 2 (fmul (truediv P S) (Finite 100))) \<and>
        (S \<noteq> 0 \<longrightarrow> (of_int P / of_int S * 100 :: rat) = 100 * (1 - of_int C / of_int S)))"
proof -
  from cell3_sales_table[of demo_numpy "fresh 0"] obtain s1 d where
    s1: "cell3 demo_numpy (fresh 0) = Inr s1" "df s1 = Some d" "sales_table d" "rows d \<noteq> []"
    by blast
  from region_summary_keeps_identity[OF s1(3,2)] s1 show ?thesis by blast
qed

text \<open>
  A table of one row with the totals of the region South in the notebook's own run.
\<close>

definition south_table :: dataframe where
  "south_table =
     \<lparr>columns = sale_columns,
      rows = [sale (Timestamp 2023 1 31) ''South'' ''Product A'' 3721 2215]\<rparr>"

lemma sales_table_south: "sales_table south_table"
  by (simp add: south_table_def sales_table_def sale_columns_def)

text \<open>
  Claim C9 as stated fails in float64: for sales of 3721 and a cost of 2215 the summed
  profit is 1506, and \<^verbatim>\<open>profit / sales * 100\<close> is 40.472991131416286 where
  \<^verbatim>\<open>100 * (1 - cost / sales)\<close> is 40.47299113141628.
\<close>

theorem margin_differs_in_float64_counterexample:
  "(case cell11 ((fresh (0::nat))\<lparr>df := Some south_table\<rparr>) of
      Inl e \<Rightarrow> False
    | Inr s \<Rightarrow>
        map_option (\<lambda>t. map (\<lambda>q. (cell q ''sales'', cell q ''cost'', cell q ''profit'')) (rows t))
          (region_summary s)
        = Some [(IntV 3721, IntV 2215, IntV 1506)]) \<and>
   fmul (truediv 1506 3721) (Finite 100) = Finite (5696067118062993 / 140737488355328) \<and>
   fmul (Finite 100) (fsub (Finite 1) (truediv 2215 3721))
     = Finite (356004194878937 / 8796093022208)"
proof -
  let ?s = "(fresh (0::nat))\<lparr>df := Some south_table\<rparr>"
  have "df ?s = Some south_table" by simp
  note r = cell11_result[OF sales_table_south this]
  have g: "sort (uniq (map (row_key [''region'']) (rows south_table))) = [[''South'']]"
    by (simp add: south_table_def row_key_def sale_def cell_def)
  have 1: "fmul (truediv 1506 3721) (Finite 100) = Finite (5696067118062993 / 140737488355328)"
    by (simp add: truediv_def of_int_f_def fl_1506 fl_3721 fl_1506_3721 fl_margin)
  have 2: "fmul (Finite 100) (fsub (Finite 1) (truediv 2215 3721))
      = Finite (356004194878937 / 8796093022208)"
    by (simp add: truediv_def of_int_f_def fsub_def fl_2215 fl_3721 fl_2215_3721 fl_one_minus
        fl_margin_alt)
  have tot: "total_where south_table ''sales'' (\<lambda>r. cell r ''region'' = StrV ''South'') = 3721"
    "total_where south_table ''cost'' (\<lambda>r. cell r ''region'' = StrV ''South'') = 2215"
    "total_where south_table ''profit'' (\<lambda>r. cell r ''region'' = StrV ''South'') = 1506"
    by (simp_all add: total_where_def south_table_def sale_def cell_def)
  show ?thesis
    unfolding r g by (simp add: tot 1 2)
qed

section \<open>Cell 12: the pivot table\<close>

text \<open>The arithmetic mean of a column over the rows that satisfy a condition, as a float:
  the sum over the number of rows (NaN when there is no such row).\<close>

definition mean_where :: "dataframe \<Rightarrow> string \<Rightarrow> (pyrow \<Rightarrow> bool) \<Rightarrow> float64" where
  "mean_where d c P = truediv (total_where d c P) (int (length (filter P (rows d))))"

lemma sum_list_ones: "sum_list (map (\<lambda>x. 1::int) xs) = int (length xs)"
  by (induction xs) auto

lemma sales_row_product: "sales_row r \<Longrightarrow> \<exists>b. cell r ''product'' = StrV b"
  by (erule sales_rowD) (simp add: cell_def)

lemma pair_key_eq:
  "cell r ''region'' = StrV a \<Longrightarrow> cell r ''product'' = StrV b \<Longrightarrow>
   row_key [''region'', ''product''] r = [a, b]"
  by (simp add: row_key_def)

lemma pair_key_iff:
  assumes "sales_row r"
  shows "row_key [''region'', ''product''] r = [a, b] \<longleftrightarrow>
         cell r ''region'' = StrV a \<and> cell r ''product'' = StrV b"
proof -
  from sales_row_region[OF assms] sales_row_product[OF assms]
  obtain a' b' where "cell r ''region'' = StrV a'" "cell r ''product'' = StrV b'" by blast
  then show ?thesis by (simp add: row_key_def)
qed

lemma map_of_graph_None: "k \<notin> set groups \<Longrightarrow> map_of (map (\<lambda>g. (g, h g)) groups) k = None"
  by (induction groups) auto

definition pivot_index :: "dataframe \<Rightarrow> string list" where
  "pivot_index d = sort (uniq (map (\<lambda>r. the_str (cell r ''region'')) (rows d)))"

definition pivot_header :: "dataframe \<Rightarrow> string list" where
  "pivot_header d = sort (uniq (map (\<lambda>r. the_str (cell r ''product'')) (rows d)))"

lemma pivot_table_mean_eq:
  assumes "sales_table d"
  shows "pivot_table_mean d ''profit'' ''region'' ''product'' =
     Inr \<lparr>columns = ''region'' # pivot_header d,
          rows = map (\<lambda>a. (''region'', StrV a) #
                     map (\<lambda>b. (b, FloatV (mean_where d ''profit''
                            (\<lambda>r. cell r ''region'' = StrV a \<and> cell r ''product'' = StrV b))))
                         (pivot_header d))
                     (pivot_index d)\<rparr>"
proof -
  let ?key = "row_key [''region'', ''product'']"
  let ?ks = "map ?key (rows d)"
  let ?groups = "sort (uniq ?ks)"
  let ?S = "\<lambda>g. total_where d ''profit'' (\<lambda>r. ?key r = g)"
  let ?N = "\<lambda>g. int (length (filter (\<lambda>r. ?key r = g) (rows d)))"
  have dist: "distinct ?groups" by simp
  have cols: "find (\<lambda>x. x \<notin> set (columns d)) [''profit'', ''region'', ''product''] = None"
    using sales_table_columns[OF assms] by (intro find_None_subset) (auto simp: sale_columns_def)
  have ks: "row_keys [''region'', ''product''] d = Inr ?ks"
    unfolding row_keys_def
  proof (rule map_e_Inr)
    fix r assume "r \<in> set (rows d)"
    then have sr: "sales_row r" by (rule sales_table_rows[OF assms])
    show "map_e (str_cell r) [''region'', ''product''] = Inr (?key r)"
      unfolding row_key_def
    proof (rule map_e_Inr)
      fix c assume "c \<in> set [''region'', ''product'']"
      with sales_row_str[OF sr, of c] obtain s where "map_of r c = Some (StrV s)" by auto
      then show "str_cell r c = Inr (the_str (cell r c))" by (simp add: str_cell_def cell_def)
    qed
  qed
  have vs: "map_e (\<lambda>r. int_cell r ''profit'') (rows d) = Inr (map (\<lambda>r. the_int (cell r ''profit'')) (rows d))"
  proof (rule map_e_Inr)
    fix r assume "r \<in> set (rows d)"
    then have sr: "sales_row r" by (rule sales_table_rows[OF assms])
    with sales_row_int[OF sr, of "''profit''"] obtain i where "map_of r ''profit'' = Some (IntV i)" by auto
    then show "int_cell r ''profit'' = Inr (the_int (cell r ''profit''))"
      by (simp add: int_cell_def cell_def)
  qed
  have sums: "group_sum ?groups (zip ?ks (map (\<lambda>r. the_int (cell r ''profit'')) (rows d)))
        = map (\<lambda>g. (g, ?S g)) ?groups"
    by (simp add: group_sum_eq[OF dist] sum_zip_filter total_where_def)
  have "group_sum ?groups (zip ?ks (map (\<lambda>r. 1) (rows d)))
        = map (\<lambda>g. (g, sum_list (map (\<lambda>r. 1) (filter (\<lambda>r. ?key r = g) (rows d))))) ?groups"
    by (simp only: group_sum_eq[OF dist] sum_zip_filter)
  then have counts: "group_sum ?groups (zip ?ks (map (\<lambda>r. 1) (rows d))) = map (\<lambda>g. (g, ?N g)) ?groups"
    by (simp only: sum_list_ones)
  have means: "map2 (\<lambda>(k, s) (k', n). (k, truediv s n)) (map (\<lambda>g. (g, ?S g)) ?groups) (map (\<lambda>g. (g, ?N g)) ?groups)
        = map (\<lambda>g. (g, truediv (?S g) (?N g))) ?groups"
    by (simp add: map2_map_map)
  have entry: "(case map_of (map (\<lambda>g. (g, truediv (?S g) (?N g))) ?groups) [a, b] of
                  Some m \<Rightarrow> m | None \<Rightarrow> NaN)
        = mean_where d ''profit'' (\<lambda>r. cell r ''region'' = StrV a \<and> cell r ''product'' = StrV b)" for a b
  proof -
    have flt: "filter (\<lambda>r. ?key r = [a, b]) (rows d)
          = filter (\<lambda>r. cell r ''region'' = StrV a \<and> cell r ''product'' = StrV b) (rows d)"
      by (rule filter_cong[OF refl]) (simp add: pair_key_iff sales_table_rows[OF assms])
    have mw: "truediv (?S [a, b]) (?N [a, b])
        = mean_where d ''profit'' (\<lambda>r. cell r ''region'' = StrV a \<and> cell r ''product'' = StrV b)"
      by (simp only: mean_where_def total_where_def flt)
    show ?thesis
    proof (cases "[a, b] \<in> set ?groups")
      case True
      then have "map_of (map (\<lambda>g. (g, truediv (?S g) (?N g))) ?groups) [a, b]
           = Some (truediv (?S [a, b]) (?N [a, b]))"
        by (rule map_of_graph)
      then show ?thesis by (simp only: option.case mw)
    next
      case False
      then have "filter (\<lambda>r. ?key r = [a, b]) (rows d) = []"
        by (force simp: filter_empty_conv)
      then have "truediv (?S [a, b]) (?N [a, b]) = NaN"
        by (simp add: total_where_def)
      moreover have "map_of (map (\<lambda>g. (g, truediv (?S g) (?N g))) ?groups) [a, b] = None"
        using False by (rule map_of_graph_None)
      ultimately show ?thesis by (simp only: option.case mw[symmetric])
    qed
  qed
  have hdr: "sort (uniq (map (\<lambda>k. k ! 1) ?ks)) = pivot_header d"
    by (simp add: pivot_header_def row_key_def o_def)
  have idx: "sort (uniq (map (\<lambda>k. k ! 0) ?ks)) = pivot_index d"
    by (simp add: pivot_index_def row_key_def o_def)
  show ?thesis
    unfolding pivot_table_mean_def cols option.case ks bind_e_simps vs Let_def list.map_comp
    unfolding o_def sums counts means entry
    by (simp add: pivot_header_def pivot_index_def row_key_def)
qed




section \<open>Cell 14: the contribution of each product\<close>

lemma sum_list_indicator_0: "k \<notin> set gs \<Longrightarrow> (\<Sum>g\<leftarrow>gs. if k = g then c else (0::int)) = 0"
  by (induction gs) auto

lemma sum_list_indicator:
  "distinct gs \<Longrightarrow> k \<in> set gs \<Longrightarrow> (\<Sum>g\<leftarrow>gs. if k = g then c else (0::int)) = c"
  by (induction gs) (auto simp: sum_list_indicator_0)

lemma sum_list_partition:
  assumes "distinct gs" "\<And>x. x \<in> set xs \<Longrightarrow> f x \<in> set gs"
  shows "(\<Sum>g\<leftarrow>gs. sum_list (map h (filter (\<lambda>x. f x = g) xs))) = (sum_list (map h xs) :: int)"
  using assms(2)
proof (induction xs)
  case Nil
  then show ?case by (simp add: sum_list_0)
next
  case (Cons x xs)
  have "(\<Sum>g\<leftarrow>gs. sum_list (map h (filter (\<lambda>y. f y = g) (x # xs))))
      = (\<Sum>g\<leftarrow>gs. (if f x = g then h x else 0) + sum_list (map h (filter (\<lambda>y. f y = g) xs)))"
    by (intro arg_cong[where f = sum_list] map_cong) auto
  also have "\<dots> = (\<Sum>g\<leftarrow>gs. if f x = g then h x else 0)
                 + (\<Sum>g\<leftarrow>gs. sum_list (map h (filter (\<lambda>y. f y = g) xs)))"
    by (rule sum_list_addf)
  also have "\<dots> = h x + sum_list (map h xs)"
    using Cons by (simp add: sum_list_indicator[OF assms(1)])
  finally show ?case by simp
qed

text \<open>The shares of a total, in exact arithmetic.\<close>

lemma sum_list_share:
  "sum_list (map (\<lambda>x. of_int x * 100 / t) xs) = of_int (sum_list xs) * 100 / (t::rat)"
  by (induction xs) (simp_all add: add_divide_distrib distrib_right)

lemma shares_sum_to_100:
  assumes "sum_list p \<noteq> 0"
  shows "sum_list (map (\<lambda>x. of_int x / of_int (sum_list p) * 100) p) = (100::rat)"
  using assms by (simp add: sum_list_share)

lemma single_key: "k \<in> set (sort (uniq (map (row_key [c]) xs))) \<Longrightarrow> \<exists>a. k = [a]"
  by (auto simp: row_key_def)

lemma cell14_result:
  assumes "sales_table d" "df s = Some d"
  defines "groups \<equiv> sort (uniq (map (row_key [''product'']) (rows d)))"
  defines "T \<equiv> \<lambda>k. total_where d ''profit'' (\<lambda>r. row_key [''product''] r = k)"
  shows "cell14 s = Inr (s\<lparr>product_profit :=
           Some \<lparr>columns = [''product'', ''profit'', ''contribution_percentage''],
                 rows = map (\<lambda>k. [(''product'', StrV (hd k)), (''profit'', IntV (T k)),
                              (''contribution_percentage'',
                               FloatV (fround 2 (fmul (truediv (T k) (sum_list (map T groups))) (Finite 100))))])
                            groups\<rparr>,
           total_profit := Some (sum_list (map T groups))\<rparr>)"
proof -
  let ?row = "\<lambda>k. [(''product'', StrV (hd k)), (''profit'', IntV (T k))]"
  let ?total = "sum_list (map T groups)"
  have g: "groupby_sum [''product''] [''profit''] d =
     Inr \<lparr>columns = [''product''] @ [''profit''],
          rows = map (\<lambda>k. zip [''product''] (map StrV k) @
                           map (\<lambda>c. (c, IntV (total_where d c (\<lambda>r. row_key [''product''] r = k))))
                               [''profit''])
                     groups\<rparr>"
    unfolding groups_def
  proof (rule groupby_sum_eq)
    show "set ([''product''] @ [''profit'']) \<subseteq> set (columns d)"
      using sales_table_columns[OF assms(1)] by (auto simp: sale_columns_def)
  next
    fix r c assume "r \<in> set (rows d)" "c \<in> set [''product'']"
    then show "\<exists>s. map_of r c = Some (StrV s)"
      using sales_row_str[OF sales_table_rows[OF assms(1)]] by auto
  next
    fix r c assume "r \<in> set (rows d)" "c \<in> set [''profit'']"
    then show "\<exists>i. map_of r c = Some (IntV i)"
      using sales_row_int[OF sales_table_rows[OF assms(1)]] by auto
  qed
  have rows: "map (\<lambda>k. zip [''product''] (map StrV k) @
                           map (\<lambda>c. (c, IntV (total_where d c (\<lambda>r. row_key [''product''] r = k))))
                               [''profit'']) groups = map ?row groups"
  proof (rule map_cong[OF refl])
    fix k assume "k \<in> set groups"
    then obtain a where "k = [a]" unfolding groups_def using single_key by blast
    then show "zip [''product''] (map StrV k) @
                           map (\<lambda>c. (c, IntV (total_where d c (\<lambda>r. row_key [''product''] r = k))))
                               [''profit''] = ?row k"
      by (simp add: T_def)
  qed
  have g': "groupby_sum [''product''] [''profit''] d =
     Inr \<lparr>columns = [''product'', ''profit''], rows = map ?row groups\<rparr>"
    unfolding g rows by simp
  have col: "column \<lparr>columns = [''product'', ''profit''], rows = map ?row groups\<rparr> ''profit''
       = Inr (map (\<lambda>k. IntV (T k)) groups)"
    by (simp add: column_def cell_def)
  have tot: "series_sum (map (\<lambda>k. IntV (T k)) groups) = Inr ?total"
    by (simp add: series_sum_def map_e_map map_e_Inr[where g = T])
  have dv: "series_div_scalar (map (\<lambda>k. IntV (T k)) groups) ?total
       = Inr (map (\<lambda>k. truediv (T k) ?total) groups)"
    by (simp add: series_div_scalar_def map_e_map map_e_Inr[where g = "\<lambda>k. of_int_f (T k)"] truediv_def)
  have st: "set_column \<lparr>columns = [''product'', ''profit''], rows = map ?row groups\<rparr>
          ''contribution_percentage'' (series_round 2 (percent (map (\<lambda>k. truediv (T k) ?total) groups)))
       = \<lparr>columns = [''product'', ''profit'', ''contribution_percentage''],
                 rows = map (\<lambda>k. [(''product'', StrV (hd k)), (''profit'', IntV (T k)),
                              (''contribution_percentage'',
                               FloatV (fround 2 (fmul (truediv (T k) ?total) (Finite 100))))])
                            groups\<rparr>"
    by (simp add: set_column_def series_round_def percent_def map2_map_map)
  show ?thesis
    unfolding cell14_def
    by (simp only: assms(2) need_def option.case bind_e_simps g' col tot dv st)
qed



text \<open>A table of three rows with the shape of the generated one.\<close>

definition demo_table :: dataframe where
  "demo_table =
     \<lparr>columns = sale_columns,
      rows = [sale (Timestamp 2023 1 31) ''North'' ''Product A'' 100 60,
              sale (Timestamp 2023 2 28) ''North'' ''Product B'' 150 95,
              sale (Timestamp 2023 1 31) ''South'' ''Product A'' 120 70]\<rparr>"

lemma sales_table_demo: "sales_table demo_table"
  by (simp add: demo_table_def sales_table_def sale_columns_def)

lemma total_demo: "total_where demo_table ''profit'' (\<lambda>r. True) = 145"
  by (simp add: demo_table_def total_where_def)


text \<open>A table of three products with a profit of 1 each.\<close>

definition thirds_table :: dataframe where
  "thirds_table =
     \<lparr>columns = sale_columns,
      rows = [sale (Timestamp 2023 1 31) ''North'' ''Product A'' 2 1,
              sale (Timestamp 2023 1 31) ''North'' ''Product B'' 2 1,
              sale (Timestamp 2023 1 31) ''North'' ''Product C'' 2 1]\<rparr>"

lemma sales_table_thirds: "sales_table thirds_table"
  by (simp add: thirds_table_def sales_table_def sale_columns_def)

lemma thirds_groups:
  "sort (uniq (map (row_key [''product'']) (rows thirds_table)))
     = [[''Product A''], [''Product B''], [''Product C'']]"
  by (simp add: thirds_table_def row_key_def sale_def cell_def)



section \<open>Cell 13: the month column and the monthly totals\<close>

text \<open>
  The shape of \<^verbatim>\<open>monthly_sales\<close> as cell 13 leaves it, and of \<^verbatim>\<open>df\<close> once it has the
  column \<^verbatim>\<open>month\<close>.
\<close>

definition monthly_row :: "pyrow \<Rightarrow> bool" where
  "monthly_row r \<longleftrightarrow>
     r = [(''month'', StrV (the_str (cell r ''month''))),
          (''sales'', IntV (the_int (cell r ''sales''))),
          (''profit'', IntV (the_int (cell r ''profit'')))]"

definition monthly_table :: "dataframe \<Rightarrow> bool" where
  "monthly_table t \<longleftrightarrow>
     columns t = [''month'', ''sales'', ''profit''] \<and> list_all monthly_row (rows t)"

definition has_month :: "dataframe \<Rightarrow> bool" where
  "has_month d \<longleftrightarrow>
     ''month'' \<in> set (columns d) \<and>
     list_all (\<lambda>r. cell r ''month'' = StrV (the_str (cell r ''month''))) (rows d)"

fun the_date :: "val \<Rightarrow> timestamp" where
  "the_date (DateV t) = t"
| "the_date v = Timestamp 0 0 0"

definition month_label :: "pyrow \<Rightarrow> val" where
  "month_label r =
     StrV (digits (year (the_date (cell r ''date''))) @ ''-'' @
           zero_pad 2 (digits (month (the_date (cell r ''date'')))))"

lemma sales_row_date: "sales_row r \<Longrightarrow> \<exists>t. cell r ''date'' = DateV t"
  by (erule sales_rowD) (simp add: cell_def)

lemma sales_row_assign:
  assumes "sales_row r" "c \<notin> set sale_columns"
  shows "sales_row (assign c v r)"
proof -
  have "cell (assign c v r) c' = cell r c'" if "c' \<in> set sale_columns" for c'
    using that assms(2) by (auto simp: cell_assign)
  then have "cell (assign c v r) ''date'' = cell r ''date''"
    "cell (assign c v r) ''region'' = cell r ''region''"
    "cell (assign c v r) ''product'' = cell r ''product''"
    "cell (assign c v r) ''sales'' = cell r ''sales''"
    "cell (assign c v r) ''cost'' = cell r ''cost''"
    "cell (assign c v r) ''profit'' = cell r ''profit''"
    by (simp_all add: sale_columns_def)
  then show ?thesis
    using assms(1) unfolding sales_row_def profit_identity_def by simp
qed

lemma map2_same: "map2 f xs (map g xs) = map (\<lambda>x. f x (g x)) xs"
  by (induction xs) auto

lemma month_column:
  assumes "sales_table d"
  shows "column d ''date'' = Inr (map (\<lambda>r. cell r ''date'') (rows d))"
    and "map_e strftime_Ym (map (\<lambda>r. cell r ''date'') (rows d)) = Inr (map month_label (rows d))"
proof -
  show "column d ''date'' = Inr (map (\<lambda>r. cell r ''date'') (rows d))"
    using sales_table_columns[OF assms, of "''date''"] by (simp add: column_def sale_columns_def)
  have "map_e (\<lambda>r. strftime_Ym (cell r ''date'')) (rows d) = Inr (map month_label (rows d))"
  proof (rule map_e_Inr)
    fix r assume "r \<in> set (rows d)"
    then have "sales_row r" by (rule sales_table_rows[OF assms])
    then obtain t where "cell r ''date'' = DateV t" using sales_row_date by blast
    then show "strftime_Ym (cell r ''date'') = Inr (month_label r)"
      by (simp add: month_label_def del: digits.simps)
  qed
  then show "map_e strftime_Ym (map (\<lambda>r. cell r ''date'') (rows d)) = Inr (map month_label (rows d))"
    by (simp add: map_e_map)
qed

text \<open>The table \<^verbatim>\<open>df\<close> after the assignment of cell 13.\<close>

definition with_month :: "dataframe \<Rightarrow> dataframe" where
  "with_month d =
     \<lparr>columns = (if ''month'' \<in> set (columns d) then columns d else columns d @ [''month'']),
      rows = map (\<lambda>r. assign ''month'' (month_label r) r) (rows d)\<rparr>"

lemma set_column_month:
  "set_column d ''month'' (map month_label (rows d)) = with_month d"
  by (simp add: set_column_def with_month_def map2_same)

lemma with_month_table:
  assumes "sales_table d"
  shows "sales_table (with_month d)" and "has_month (with_month d)"
proof -
  show "sales_table (with_month d)"
    using assms
    by (auto simp: sales_table_def with_month_def list_all_iff sale_columns_def
        intro!: sales_row_assign)
  show "has_month (with_month d)"
    by (auto simp: has_month_def with_month_def list_all_iff cell_assign month_label_def
        simp del: digits.simps)
qed


lemma groupby_single:
  assumes cols: "set (c # vals) \<subseteq> set (columns d)"
    and strs: "\<And>r. r \<in> set (rows d) \<Longrightarrow> \<exists>s. map_of r c = Some (StrV s)"
    and ints: "\<And>r v. r \<in> set (rows d) \<Longrightarrow> v \<in> set vals \<Longrightarrow> \<exists>i. map_of r v = Some (IntV i)"
  shows "groupby_sum [c] vals d =
     Inr \<lparr>columns = c # vals,
          rows = map (\<lambda>k. (c, StrV (hd k)) #
                           map (\<lambda>v. (v, IntV (total_where d v (\<lambda>r. row_key [c] r = k)))) vals)
                     (sort (uniq (map (row_key [c]) (rows d))))\<rparr>"
proof -
  let ?groups = "sort (uniq (map (row_key [c]) (rows d)))"
  have g: "groupby_sum [c] vals d =
     Inr \<lparr>columns = [c] @ vals,
          rows = map (\<lambda>k. zip [c] (map StrV k) @
                           map (\<lambda>v. (v, IntV (total_where d v (\<lambda>r. row_key [c] r = k)))) vals)
                     ?groups\<rparr>"
    by (rule groupby_sum_eq) (use assms in auto)
  have rows: "map (\<lambda>k. zip [c] (map StrV k) @
                           map (\<lambda>v. (v, IntV (total_where d v (\<lambda>r. row_key [c] r = k)))) vals) ?groups
      = map (\<lambda>k. (c, StrV (hd k)) #
                           map (\<lambda>v. (v, IntV (total_where d v (\<lambda>r. row_key [c] r = k)))) vals) ?groups"
  proof (rule map_cong[OF refl])
    fix k assume "k \<in> set ?groups"
    then obtain a where "k = [a]" using single_key by blast
    then show "zip [c] (map StrV k) @
                  map (\<lambda>v. (v, IntV (total_where d v (\<lambda>r. row_key [c] r = k)))) vals
             = (c, StrV (hd k)) #
                  map (\<lambda>v. (v, IntV (total_where d v (\<lambda>r. row_key [c] r = k)))) vals"
      by simp
  qed
  show ?thesis unfolding g rows by simp
qed

text \<open>The monthly totals of a table that has the month column.\<close>

definition monthly_totals :: "dataframe \<Rightarrow> dataframe" where
  "monthly_totals d =
     \<lparr>columns = [''month'', ''sales'', ''profit''],
      rows = map (\<lambda>k. [(''month'', StrV (hd k)),
                       (''sales'', IntV (total_where d ''sales'' (\<lambda>r. row_key [''month''] r = k))),
                       (''profit'', IntV (total_where d ''profit'' (\<lambda>r. row_key [''month''] r = k)))])
                 (sort (uniq (map (row_key [''month'']) (rows d))))\<rparr>"

lemma has_month_str:
  "has_month d \<Longrightarrow> r \<in> set (rows d) \<Longrightarrow> \<exists>s. map_of r ''month'' = Some (StrV s)"
proof -
  assume "has_month d" "r \<in> set (rows d)"
  then have "cell r ''month'' = StrV (the_str (cell r ''month''))"
    by (simp add: has_month_def list_all_iff)
  then have "map_of r ''month'' = Some (StrV (the_str (cell r ''month'')))"
    by (rule cell_present) simp
  then show ?thesis by blast
qed

lemma monthly_groupby:
  assumes "sales_table d" "has_month d"
  shows "groupby_sum [''month''] [''sales'', ''profit''] d = Inr (monthly_totals d)"
proof -
  have "groupby_sum [''month''] [''sales'', ''profit''] d =
     Inr \<lparr>columns = ''month'' # [''sales'', ''profit''],
          rows = map (\<lambda>k. (''month'', StrV (hd k)) #
                           map (\<lambda>v. (v, IntV (total_where d v (\<lambda>r. row_key [''month''] r = k))))
                               [''sales'', ''profit''])
                     (sort (uniq (map (row_key [''month'']) (rows d))))\<rparr>"
  proof (rule groupby_single)
    show "set (''month'' # [''sales'', ''profit'']) \<subseteq> set (columns d)"
      using sales_table_columns[OF assms(1)] assms(2) by (auto simp: sale_columns_def has_month_def)
  next
    fix r assume "r \<in> set (rows d)"
    then show "\<exists>s. map_of r ''month'' = Some (StrV s)" by (rule has_month_str[OF assms(2)])
  next
    fix r v assume "r \<in> set (rows d)" "v \<in> set [''sales'', ''profit'']"
    then show "\<exists>i. map_of r v = Some (IntV i)"
      using sales_row_int[OF sales_table_rows[OF assms(1)]] by auto
  qed
  then show ?thesis by (simp add: monthly_totals_def)
qed

lemma monthly_table_totals: "monthly_table (monthly_totals d)"
  by (simp add: monthly_table_def monthly_totals_def list_all_iff monthly_row_def cell_def)

lemma cell13_result:
  assumes "sales_table d" "df s = Some d"
  shows "cell13 s = Inr (s\<lparr>df := Some (with_month d),
                          monthly_sales := Some (monthly_totals (with_month d))\<rparr>)"
  unfolding cell13_def
  by (simp only: assms(2) need_def option.case bind_e_simps month_column[OF assms(1)]
      set_column_month Let_def monthly_groupby[OF with_month_table[OF assms(1)]])

section \<open>Cell 27: the month-over-month growth rate\<close>

text \<open>The growth rate in exact arithmetic.\<close>

lemma pct_formula:
  "b \<noteq> 0 \<Longrightarrow> ((of_int a / of_int b - 1) * 100 :: rat) = of_int (a - b) / of_int b * 100"
  by (simp add: diff_divide_distrib)

lemma zip_take_length: "zip xs (take (length xs) ys) = zip xs ys"
proof (induction xs arbitrary: ys)
  case Nil
  then show ?case by simp
next
  case (Cons x xs)
  then show ?case by (cases ys) simp_all
qed

text \<open>The growth rate of the month at position \<open>i\<close> of a list of monthly sales.\<close>

definition growth_at :: "int list \<Rightarrow> nat \<Rightarrow> float64" where
  "growth_at xs i =
     (if i = 0 then NaN
      else fmul (fsub (truediv (xs ! i) (xs ! (i - 1))) (Finite 1)) (Finite 100))"

lemma pct_change_ints:
  "pct_change (map IntV xs) = Inr (map2 (\<lambda>a b. fsub (fdiv a b) (Finite 1))
       (map of_int_f xs) (NaN # map of_int_f xs))"
proof -
  have "map_e as_float (map IntV xs) = Inr (map of_int_f xs)"
    by (simp add: map_e_map map_e_Inr[where g = of_int_f])
  moreover have "zip (map of_int_f xs) (shift (map of_int_f xs))
      = zip (map of_int_f xs) (NaN # map of_int_f xs)"
    using zip_take_length[of "map of_int_f xs" "NaN # map of_int_f xs"] by (simp add: shift_def)
  ultimately show ?thesis by (simp add: pct_change_def)
qed

lemma growth_list:
  "percent (map2 (\<lambda>a b. fsub (fdiv a b) (Finite 1)) (map of_int_f xs) (NaN # map of_int_f xs))
     = map (growth_at xs) [0..<length xs]"
proof (rule nth_equalityI)
  show "length (percent (map2 (\<lambda>a b. fsub (fdiv a b) (Finite 1)) (map of_int_f xs) (NaN # map of_int_f xs)))
      = length (map (growth_at xs) [0..<length xs])"
    by (simp add: percent_def)
next
  fix i
  assume "i < length (percent (map2 (\<lambda>a b. fsub (fdiv a b) (Finite 1)) (map of_int_f xs) (NaN # map of_int_f xs)))"
  then have i: "i < length xs" by (simp add: percent_def)
  have lhs: "percent (map2 (\<lambda>a b. fsub (fdiv a b) (Finite 1)) (map of_int_f xs) (NaN # map of_int_f xs)) ! i
      = fmul (fsub (fdiv (of_int_f (xs ! i)) ((NaN # map of_int_f xs) ! i)) (Finite 1)) (Finite 100)"
    using i by (simp add: percent_def del: fdiv.simps)
  have rhs: "map (growth_at xs) [0..<length xs] ! i = growth_at xs i"
    using i by simp
  show "percent (map2 (\<lambda>a b. fsub (fdiv a b) (Finite 1)) (map of_int_f xs) (NaN # map of_int_f xs)) ! i
      = map (growth_at xs) [0..<length xs] ! i"
    unfolding lhs rhs
  proof (cases i)
    case 0
    then show "fmul (fsub (fdiv (of_int_f (xs ! i)) ((NaN # map of_int_f xs) ! i)) (Finite 1)) (Finite 100)
        = growth_at xs i"
      by (simp add: growth_at_def fsub_def)
  next
    case (Suc j)
    with i have "(NaN # map of_int_f xs) ! i = of_int_f (xs ! j)" by simp
    with Suc show "fmul (fsub (fdiv (of_int_f (xs ! i)) ((NaN # map of_int_f xs) ! i)) (Finite 1)) (Finite 100)
        = growth_at xs i"
      by (simp add: growth_at_def truediv_def del: fdiv.simps)
  qed
qed

lemma monthly_row_cells:
  assumes "monthly_row r"
  shows "cell r ''sales'' = IntV (the_int (cell r ''sales''))"
    and "cell r ''month'' = StrV (the_str (cell r ''month''))"
    and "''growth_rate'' \<notin> fst ` set r"
proof -
  from assms obtain a x y where r: "r = [(''month'', StrV a), (''sales'', IntV x), (''profit'', IntV y)]"
    unfolding monthly_row_def by blast
  show "cell r ''sales'' = IntV (the_int (cell r ''sales''))"
    "cell r ''month'' = StrV (the_str (cell r ''month''))" "''growth_rate'' \<notin> fst ` set r"
    by (simp_all add: r cell_def)
qed

text \<open>\<^verbatim>\<open>monthly_sales\<close> with the growth rate, and the table cell 27 shows.\<close>

definition sales_at :: "dataframe \<Rightarrow> nat \<Rightarrow> int" where
  "sales_at t i = the_int (cell (rows t ! i) ''sales'')"

definition with_growth :: "dataframe \<Rightarrow> dataframe" where
  "with_growth t =
     \<lparr>columns = columns t @ [''growth_rate''],
      rows = map (\<lambda>i. rows t ! i @
                   [(''growth_rate'', FloatV (growth_at (map (\<lambda>r. the_int (cell r ''sales'')) (rows t)) i))])
                 [0..<length (rows t)]\<rparr>"

lemma growth_rate_eq:
  assumes "monthly_table t"
  shows "growth_rate t = Inr (with_growth t)"
proof -
  let ?xs = "map (\<lambda>r. the_int (cell r ''sales'')) (rows t)"
  have rows: "r \<in> set (rows t) \<Longrightarrow> monthly_row r" for r
    using assms by (simp add: monthly_table_def list_all_iff)
  have col: "column t ''sales'' = Inr (map IntV ?xs)"
    using assms by (simp add: column_def monthly_table_def monthly_row_cells(1)[OF rows, symmetric])
  have "map2 (\<lambda>r v. assign ''growth_rate'' v r) (rows t) (map FloatV (map (growth_at ?xs) [0..<length ?xs]))
      = map (\<lambda>i. rows t ! i @ [(''growth_rate'', FloatV (growth_at ?xs i))]) [0..<length (rows t)]"
    by (rule nth_equalityI) (simp_all add: assign_fresh monthly_row_cells(3) rows)
  then show ?thesis
    using assms
    by (simp add: growth_rate_def col pct_change_ints growth_list set_column_def with_growth_def
        monthly_table_def del: map_map)
qed


definition shown_row :: "pyrow \<Rightarrow> pyrow" where
  "shown_row r = [(''month'', cell r ''month''), (''sales'', cell r ''sales''),
                  (''growth_rate'', cell r ''growth_rate'')]"

lemma grown_cells:
  assumes "monthly_row r"
  shows "cell (r @ [(''growth_rate'', v)]) ''month'' = cell r ''month''"
    and "cell (r @ [(''growth_rate'', v)]) ''sales'' = cell r ''sales''"
    and "cell (r @ [(''growth_rate'', v)]) ''growth_rate'' = v"
    and "cell r ''month'' \<noteq> FloatV NaN" and "cell r ''sales'' \<noteq> FloatV NaN"
proof -
  from assms obtain a x y where r: "r = [(''month'', StrV a), (''sales'', IntV x), (''profit'', IntV y)]"
    unfolding monthly_row_def by blast
  show "cell (r @ [(''growth_rate'', v)]) ''month'' = cell r ''month''"
    "cell (r @ [(''growth_rate'', v)]) ''sales'' = cell r ''sales''"
    "cell (r @ [(''growth_rate'', v)]) ''growth_rate'' = v"
    "cell r ''month'' \<noteq> FloatV NaN" "cell r ''sales'' \<noteq> FloatV NaN"
    by (simp_all add: r cell_def)
qed

lemma with_growth_rows:
  assumes "monthly_table t" "i < length (rows t)"
  shows "cell (rows (with_growth t) ! i) ''month'' = cell (rows t ! i) ''month''"
    and "cell (rows (with_growth t) ! i) ''sales'' = cell (rows t ! i) ''sales''"
    and "cell (rows (with_growth t) ! i) ''growth_rate''
          = FloatV (if i = 0 then NaN
                    else fmul (fsub (truediv (sales_at t i) (sales_at t (i - 1))) (Finite 1))
                              (Finite 100))"
proof -
  have m: "monthly_row (rows t ! i)"
    using assms by (simp add: monthly_table_def list_all_length)
  show "cell (rows (with_growth t) ! i) ''month'' = cell (rows t ! i) ''month''"
    "cell (rows (with_growth t) ! i) ''sales'' = cell (rows t ! i) ''sales''"
    using assms(2) by (simp_all add: with_growth_def grown_cells[OF m])
  show "cell (rows (with_growth t) ! i) ''growth_rate''
          = FloatV (if i = 0 then NaN
                    else fmul (fsub (truediv (sales_at t i) (sales_at t (i - 1))) (Finite 1))
                              (Finite 100))"
    using assms(2) by (simp add: with_growth_def grown_cells(3)[OF m] growth_at_def sales_at_def)
qed

lemma cell27_shown_eq:
  assumes "monthly_table t"
  shows "cell27_shown (with_growth t) =
     Inr \<lparr>columns = [''month'', ''sales'', ''growth_rate''],
          rows = map shown_row (filter (\<lambda>r. cell r ''growth_rate'' \<noteq> FloatV NaN)
                                  (tl (rows (with_growth t))))\<rparr>"
proof -
  let ?rows = "rows (with_growth t)"
  have len: "length ?rows = length (rows t)" by (simp add: with_growth_def)
  have sel: "select_columns (with_growth t) [''month'', ''sales'', ''growth_rate'']
      = Inr \<lparr>columns = [''month'', ''sales'', ''growth_rate''], rows = map shown_row ?rows\<rparr>"
    using assms by (simp add: select_columns_def with_growth_def monthly_table_def shown_row_def)
  have keep: "list_all (\<lambda>cv. snd cv \<noteq> FloatV NaN) (shown_row r) = (cell r ''growth_rate'' \<noteq> FloatV NaN)"
    if "r \<in> set ?rows" for r
  proof -
    from that obtain i where i: "i < length (rows t)" "r = ?rows ! i"
      by (metis in_set_conv_nth len)
    have m: "monthly_row (rows t ! i)"
      using assms i(1) by (simp add: monthly_table_def list_all_length)
    show ?thesis
      unfolding i(2) shown_row_def
      by (simp add: with_growth_rows(1,2)[OF assms i(1)] grown_cells(4,5)[OF m])
  qed
  have drop: "filter (\<lambda>r. list_all (\<lambda>cv. snd cv \<noteq> FloatV NaN) (shown_row r)) ?rows
      = filter (\<lambda>r. cell r ''growth_rate'' \<noteq> FloatV NaN) ?rows"
    by (rule filter_cong[OF refl]) (rule keep)
  have first: "filter (\<lambda>r. cell r ''growth_rate'' \<noteq> FloatV NaN) ?rows
      = filter (\<lambda>r. cell r ''growth_rate'' \<noteq> FloatV NaN) (tl ?rows)"
  proof (cases ?rows)
    case Nil
    then show ?thesis by simp
  next
    case (Cons r rs)
    then have "0 < length (rows t)" using len by (cases "rows t") auto
    from with_growth_rows(3)[OF assms this] Cons have "cell r ''growth_rate'' = FloatV NaN"
      by simp
    with Cons show ?thesis by simp
  qed
  show ?thesis
    by (simp add: cell27_shown_def sel dropna_def filter_map o_def drop first)
qed

text \<open>
  Claim C7, as the code has it. On the monthly totals cell 13 builds, cell 27 adds a
  column whose value for every month after the first is
  \<^verbatim>\<open>(sales / previous sales - 1) * 100\<close>, evaluated in float64 in this order, which is how
  pandas' \<^verbatim>\<open>pct_change\<close> computes it. In exact arithmetic, when the previous sales are not
  zero, this is \<open>(sales - previous sales) / previous sales * 100\<close>; the float64 values of
  the two expressions need not be equal. The first month gets NaN, and the table the cell
  shows is built from the rows after the first (those whose growth rate is not NaN).
\<close>

theorem growth_rate_month_over_month:
  assumes "monthly_table t" "monthly_sales s = Some t"
  shows "\<exists>t' shown.
     cell27 s = Inr (bind_names [''monthly_sales_ts''] (s\<lparr>monthly_sales := Some t'\<rparr>)) \<and>
     cell27_shown t' = Inr shown \<and>
     length (rows t') = length (rows t) \<and>
     (\<forall>i<length (rows t).
        cell (rows t' ! i) ''month'' = cell (rows t ! i) ''month'' \<and>
        cell (rows t' ! i) ''sales'' = cell (rows t ! i) ''sales'' \<and>
        cell (rows t' ! i) ''growth_rate''
          = FloatV (if i = 0 then NaN
                    else fmul (fsub (truediv (sales_at t i) (sales_at t (i - 1))) (Finite 1))
                              (Finite 100)) \<and>
        (sales_at t (i - 1) \<noteq> 0 \<longrightarrow>
           ((of_int (sales_at t i) / of_int (sales_at t (i - 1)) - 1) * 100 :: rat)
             = of_int (sales_at t i - sales_at t (i - 1)) / of_int (sales_at t (i - 1)) * 100)) \<and>
     rows shown = map shown_row (filter (\<lambda>r. cell r ''growth_rate'' \<noteq> FloatV NaN) (tl (rows t')))"
proof -
  let ?shown = "\<lparr>columns = [''month'', ''sales'', ''growth_rate''],
          rows = map shown_row (filter (\<lambda>r. cell r ''growth_rate'' \<noteq> FloatV NaN)
                                  (tl (rows (with_growth t))))\<rparr>"
  have rd: "reads t [''month'', ''sales''] = Inr ()"
    using assms(1) by (simp add: reads_def monthly_table_def)
  have c27: "cell27 s = Inr (bind_names [''monthly_sales_ts''] (s\<lparr>monthly_sales := Some (with_growth t)\<rparr>))"
    unfolding cell27_def
    by (simp only: assms(2) need_def option.case bind_e_simps rd growth_rate_eq[OF assms(1)]
        cell27_shown_eq[OF assms(1)])
  have len: "length (rows (with_growth t)) = length (rows t)" by (simp add: with_growth_def)
  show ?thesis
    by (intro exI[of _ "with_growth t"] exI[of _ ?shown] conjI allI impI)
       (rule c27, rule cell27_shown_eq[OF assms(1)], rule len,
        erule with_growth_rows(1)[OF assms(1)], erule with_growth_rows(2)[OF assms(1)],
        erule with_growth_rows(3)[OF assms(1)], erule pct_formula, simp)
qed

theorem growth_rate_month_over_month_witness:
  "\<exists>s1 s2 t t' shown.
     cell3 demo_numpy (fresh 0) = Inr s1 \<and> cell13 s1 = Inr s2 \<and>
     monthly_sales s2 = Some t \<and> monthly_table t \<and>
     cell27 s2 = Inr (bind_names [''monthly_sales_ts''] (s2\<lparr>monthly_sales := Some t'\<rparr>)) \<and>
     cell27_shown t' = Inr shown \<and>
     length (rows t') = length (rows t) \<and>
     rows shown = map shown_row (filter (\<lambda>r. cell r ''growth_rate'' \<noteq> FloatV NaN) (tl (rows t')))"
proof -
  from cell3_sales_table[of demo_numpy "fresh 0"] obtain s1 d where
    s1: "cell3 demo_numpy (fresh 0) = Inr s1" "df s1 = Some d" "sales_table d"
    by blast
  let ?s2 = "s1\<lparr>df := Some (with_month d), monthly_sales := Some (monthly_totals (with_month d))\<rparr>"
  have c13: "cell13 s1 = Inr ?s2" by (rule cell13_result[OF s1(3,2)])
  have ms: "monthly_sales ?s2 = Some (monthly_totals (with_month d))" by simp
  from growth_rate_month_over_month[OF monthly_table_totals ms] s1(1) c13 ms monthly_table_totals
  show ?thesis by blast
qed

text \<open>Monthly totals of two months, with sales of 5 and 6.\<close>

definition two_months :: dataframe where
  "two_months =
     \<lparr>columns = [''month'', ''sales'', ''profit''],
      rows = [[(''month'', StrV ''2023-01''), (''sales'', IntV 5), (''profit'', IntV 2)],
              [(''month'', StrV ''2023-02''), (''sales'', IntV 6), (''profit'', IntV 2)]]\<rparr>"

lemma monthly_table_two_months: "monthly_table two_months"
  by (simp add: monthly_table_def two_months_def monthly_row_def cell_def)

lemma cell27_result:
  assumes "monthly_table t" "monthly_sales s = Some t"
  shows "cell27 s = Inr (bind_names [''monthly_sales_ts''] (s\<lparr>monthly_sales := Some (with_growth t)\<rparr>))"
proof -
  have rd: "reads t [''month'', ''sales''] = Inr ()"
    using assms(1) by (simp add: reads_def monthly_table_def)
  show ?thesis
    unfolding cell27_def
    by (simp only: assms(2) need_def option.case bind_e_simps rd growth_rate_eq[OF assms(1)]
        cell27_shown_eq[OF assms(1)])
qed

text \<open>
  Claim C7 as stated fails in float64: for sales of 5 and then 6, cell 27 stores
  19.999999999999996, where \<^verbatim>\<open>(6 - 5) / 5 * 100\<close> is 20.
\<close>

theorem growth_rate_differs_in_float64_counterexample:
  "(case cell27 ((fresh (0::nat))\<lparr>monthly_sales := Some two_months\<rparr>) of
      Inl e \<Rightarrow> False
    | Inr s \<Rightarrow>
        map_option (\<lambda>t. map (\<lambda>r. cell r ''growth_rate'') (rows t)) (monthly_sales s)
          = Some [FloatV NaN, FloatV (Finite (5629499534213119 / 281474976710656))]) \<and>
   fmul (truediv (6 - 5) 5) (Finite 100) = Finite 20"
proof -
  let ?s = "(fresh (0::nat))\<lparr>monthly_sales := Some two_months\<rparr>"
  have "monthly_sales ?s = Some two_months" by simp
  note r = cell27_result[OF monthly_table_two_months this]
  have 1: "fmul (fsub (truediv 6 5) (Finite 1)) (Finite 100)
      = Finite (5629499534213119 / 281474976710656)"
    by (simp add: truediv_def of_int_f_def fsub_def fl_6 fl_5 fl_6_5 fl_6_5_minus fl_growth)
  have 2: "fmul (truediv 1 5) (Finite 100) = Finite 20"
    by (simp add: truediv_def of_int_f_def fl_1 fl_5 fl_1_5 fl_growth_alt)
  have 3: "map (\<lambda>r. cell r ''growth_rate'') (rows (with_growth two_months))
      = [FloatV NaN, FloatV (fmul (fsub (truediv 6 5) (Finite 1)) (Finite 100))]"
    by (simp add: with_growth_def two_months_def growth_at_def cell_def upt_rec)
  show ?thesis
    unfolding r by (simp add: 3 1 2 bind_names_def)
qed

section \<open>What the cells do to the table\<close>

lemma need_Inr_iff: "need n v = Inr x \<longleftrightarrow> v = Some x"
  by (cases v) (simp_all add: need_def)

lemma df_bind_names [simp]: "df (bind_names ns s) = df s"
  by (simp add: bind_names_def)

text \<open>Every cell but 3 and 13 leaves \<^verbatim>\<open>df\<close> as it is.\<close>

lemma exec_keeps_df:
  assumes "exec np c s = Inr s'" "c \<noteq> Cell3" "c \<noteq> Cell13"
  shows "df s' = df s"
proof (cases c)
  case Cell1 with assms show ?thesis by simp
next
  case Cell3 with assms show ?thesis by simp
next
  case Cell4 with assms show ?thesis by (auto simp: cell4_def bind_e_Inr_iff)
next
  case Cell6 with assms show ?thesis by (auto simp: cell6_def bind_e_Inr_iff)
next
  case Cell7 with assms show ?thesis by (auto simp: cell7_def bind_e_Inr_iff)
next
  case Cell8 with assms show ?thesis by (auto simp: cell8_def bind_e_Inr_iff)
next
  case Cell9 with assms show ?thesis by (auto simp: cell9_def bind_e_Inr_iff)
next
  case Cell10 with assms show ?thesis by (auto simp: cell10_def bind_e_Inr_iff)
next
  case Cell11 with assms show ?thesis by (auto simp: cell11_def bind_e_Inr_iff)
next
  case Cell12 with assms show ?thesis by (auto simp: cell12_def bind_e_Inr_iff)
next
  case Cell13 with assms show ?thesis by simp
next
  case Cell14 with assms show ?thesis by (auto simp: cell14_def bind_e_Inr_iff)
next
  case Cell16 with assms show ?thesis by (auto simp: cell16_def bind_e_Inr_iff)
next
  case Cell17 with assms show ?thesis by (auto simp: cell17_def bind_e_Inr_iff)
next
  case Cell18 with assms show ?thesis by (auto simp: cell18_def bind_e_Inr_iff)
next
  case Cell19 with assms show ?thesis by (auto simp: cell19_def bind_e_Inr_iff)
next
  case Cell20 with assms show ?thesis by (auto simp: cell20_def bind_e_Inr_iff)
next
  case Cell21 with assms show ?thesis by (auto simp: cell21_def bind_e_Inr_iff)
next
  case Cell22 with assms show ?thesis by (auto simp: cell22_def bind_e_Inr_iff)
next
  case Cell23 with assms show ?thesis by (auto simp: cell23_def bind_e_Inr_iff)
next
  case Cell25 with assms show ?thesis by (auto simp: cell25_def bind_e_Inr_iff)
next
  case Cell26 with assms show ?thesis by (auto simp: cell26_def bind_e_Inr_iff)
next
  case Cell27 with assms show ?thesis by (auto simp: cell27_def bind_e_Inr_iff)
next
  case Cell28 with assms show ?thesis by (auto simp: cell28_def bind_e_Inr_iff)
next
  case Cell29 with assms show ?thesis by (auto simp: cell29_def bind_e_Inr_iff)
next
  case Cell30 with assms show ?thesis by (auto simp: cell30_def bind_e_Inr_iff)
qed

lemma map_e_length: "map_e f xs = Inr ys \<Longrightarrow> length ys = length xs"
  by (induction xs arbitrary: ys) (auto simp: bind_e_Inr_iff)

text \<open>Cell 13 assigns one column of \<^verbatim>\<open>df\<close>, with one value per row.\<close>

lemma cell13_df:
  assumes "cell13 s = Inr s'"
  shows "\<exists>d m. df s = Some d \<and> length m = length (rows d) \<and> df s' = Some (set_column d ''month'' m)"
proof -
  from assms obtain d t m ms where
    d: "df s = Some d" and t: "column d ''date'' = Inr t" and m: "map_e strftime_Ym t = Inr m"
    and s': "s' = s\<lparr>df := Some (set_column d ''month'' m), monthly_sales := Some ms\<rparr>"
    unfolding cell13_def by (auto simp: bind_e_Inr_iff need_Inr_iff Let_def)
  from t have "length t = length (rows d)"
    by (auto simp: column_def split: if_splits)
  with map_e_length[OF m] have "length m = length (rows d)" by simp
  with d s' show ?thesis by auto
qed

lemma set_column_cells:
  assumes "length m = length (rows d)" "c \<noteq> c'"
  shows "map (\<lambda>r. cell r c') (rows (set_column d c m)) = map (\<lambda>r. cell r c') (rows d)"
  using assms by (intro nth_equalityI) (simp_all add: set_column_def cell_assign)

lemma set_column_identity:
  assumes "list_all profit_identity (rows d)"
  shows "list_all profit_identity (rows (set_column d ''month'' m))"
proof -
  have "profit_identity (assign ''month'' v r)" if "profit_identity r" for r v
    using that by (simp add: profit_identity_def cell_assign)
  then show ?thesis
    using assms by (auto simp: set_column_def list_all_iff dest!: set_zip_leftD)
qed


text \<open>The identity of claim C1 as a property of the kernel: \<^verbatim>\<open>df\<close> is bound and each of its
  rows has integer sales and cost and profit equal to their difference.\<close>

definition identity_holds :: "'g kernel \<Rightarrow> bool" where
  "identity_holds s \<longleftrightarrow>
     (case df s of Some d \<Rightarrow> list_all profit_identity (rows d) | None \<Rightarrow> False)"

lemma cell3_identity: "\<exists>s1. exec np Cell3 s = Inr s1 \<and> identity_holds s1"
proof -
  from cell3_sales_table[of np s] obtain s1 d where
    "cell3 np s = Inr s1" "df s1 = Some d" "sales_table d" by blast
  moreover from this have "list_all profit_identity (rows d)"
    unfolding sales_table_def list_all_iff sales_row_def by blast
  ultimately show ?thesis
    by (auto simp: identity_holds_def)
qed

lemma exec_identity:
  assumes "identity_holds s" "exec np c s = Inr s'"
  shows "identity_holds s'"
proof -
  consider "c = Cell3" | "c = Cell13" | "c \<noteq> Cell3" "c \<noteq> Cell13" by blast
  then show ?thesis
  proof cases
    case 1
    with cell3_identity[of np s] assms(2) show ?thesis by auto
  next
    case 2
    with assms(2) have "cell13 s = Inr s'" by simp
    from cell13_df[OF this] obtain d m where
      "df s = Some d" "df s' = Some (set_column d ''month'' m)" by blast
    with assms(1) show ?thesis
      by (simp add: identity_holds_def set_column_identity)
  next
    case 3
    from exec_keeps_df[OF assms(2) this] assms(1) show ?thesis
      by (simp add: identity_holds_def)
  qed
qed

lemma run_identity: "identity_holds s \<Longrightarrow> run np cs s = Inr s' \<Longrightarrow> identity_holds s'"
  unfolding run_def
proof (induction cs arbitrary: s)
  case Nil
  then show ?case by simp
next
  case (Cons c cs)
  from Cons.prems(2) obtain s1 where "exec np c s = Inr s1" "for_each (exec np) cs s1 = Inr s'"
    by (auto simp: bind_e_Inr_iff)
  with Cons.IH[of s1] exec_identity[OF Cons.prems(1)] show ?case by blast
qed

text \<open>
  Claim C2, as the code has it. Every cell other than 3 and 13 leaves \<^verbatim>\<open>df\<close> exactly as
  it was. Cell 13 assigns \<^verbatim>\<open>df['month']\<close>: the column is appended (or overwritten when
  the cell runs again), the number of rows and every value of every other column stay.
\<close>

theorem df_changed_only_by_cell13:
  "(\<forall>c s s'. c \<noteq> Cell3 \<and> c \<noteq> Cell13 \<and> exec np c s = Inr s' \<longrightarrow> df s' = df s) \<and>
   (\<forall>s s'. exec np Cell13 s = Inr s' \<longrightarrow>
      (\<exists>d d'. df s = Some d \<and> df s' = Some d' \<and>
         columns d' = (if ''month'' \<in> set (columns d) then columns d else columns d @ [''month'']) \<and>
         length (rows d') = length (rows d) \<and>
         (\<forall>c. c \<noteq> ''month'' \<longrightarrow>
            map (\<lambda>r. cell r c) (rows d') = map (\<lambda>r. cell r c) (rows d))))"
proof (intro conjI allI impI)
  fix c and s s' :: "'a kernel"
  assume "c \<noteq> Cell3 \<and> c \<noteq> Cell13 \<and> exec np c s = Inr s'"
  then have "exec np c s = Inr s'" "c \<noteq> Cell3" "c \<noteq> Cell13" by simp_all
  then show "df s' = df s" by (rule exec_keeps_df)
next
  fix s s' :: "'a kernel"
  assume "exec np Cell13 s = Inr s'"
  then have "cell13 s = Inr s'" by simp
  from cell13_df[OF this] obtain d m where
    d: "df s = Some d" "length m = length (rows d)" "df s' = Some (set_column d ''month'' m)"
    by blast
  have 1: "columns (set_column d ''month'' m)
        = (if ''month'' \<in> set (columns d) then columns d else columns d @ [''month''])"
    by (simp add: set_column_def)
  have 2: "length (rows (set_column d ''month'' m)) = length (rows d)"
    using d(2) by (simp add: set_column_def)
  have 3: "\<forall>c. c \<noteq> ''month'' \<longrightarrow>
      map (\<lambda>r. cell r c) (rows (set_column d ''month'' m)) = map (\<lambda>r. cell r c) (rows d)"
  proof (intro allI impI)
    fix c :: string
    assume "c \<noteq> ''month''"
    then have "''month'' \<noteq> c" by simp
    then show "map (\<lambda>r. cell r c) (rows (set_column d ''month'' m)) = map (\<lambda>r. cell r c) (rows d)"
      by (rule set_column_cells[OF d(2)])
  qed
  show "\<exists>d d'. df s = Some d \<and> df s' = Some d' \<and>
         columns d' = (if ''month'' \<in> set (columns d) then columns d else columns d @ [''month'']) \<and>
         length (rows d') = length (rows d) \<and>
         (\<forall>c. c \<noteq> ''month'' \<longrightarrow>
            map (\<lambda>r. cell r c) (rows d') = map (\<lambda>r. cell r c) (rows d))"
    by (intro exI[of _ d] exI[of _ "set_column d ''month'' m"] conjI d(1) d(3) 1 2 3)
qed

lemma with_month_columns:
  "columns d = sale_columns \<Longrightarrow> columns (with_month d) = sale_columns @ [''month'']"
  by (simp add: with_month_def sale_columns_def)

theorem df_changed_only_by_cell13_witness:
  "\<exists>s1 s2 s3 d d'. exec demo_numpy Cell3 (fresh 0) = Inr s1 \<and>
      exec demo_numpy Cell11 s1 = Inr s2 \<and> df s2 = df s1 \<and>
      exec demo_numpy Cell13 s1 = Inr s3 \<and> df s1 = Some d \<and> df s3 = Some d' \<and>
      columns d' = columns d @ [''month''] \<and> length (rows d') = length (rows d) \<and>
      map (\<lambda>r. cell r ''profit'') (rows d') = map (\<lambda>r. cell r ''profit'') (rows d)"
proof -
  from cell3_sales_table[of demo_numpy "fresh 0"] obtain s1 d where
    s1: "cell3 demo_numpy (fresh 0) = Inr s1" "df s1 = Some d" "sales_table d"
      "columns d = sale_columns"
    by blast
  from cell11_result[OF s1(3,2)] obtain s2 where s2: "exec demo_numpy Cell11 s1 = Inr s2" by simp
  have s3: "exec demo_numpy Cell13 s1 = Inr (s1\<lparr>df := Some (with_month d),
                          monthly_sales := Some (monthly_totals (with_month d))\<rparr>)"
    using cell13_result[OF s1(3,2)] by simp
  from df_changed_only_by_cell13[of demo_numpy] s2 have k: "df s2 = df s1" by blast
  from df_changed_only_by_cell13[of demo_numpy] s3 obtain d0 d' where
    dd: "df s1 = Some d0"
      "df (s1\<lparr>df := Some (with_month d), monthly_sales := Some (monthly_totals (with_month d))\<rparr>) = Some d'"
      "length (rows d') = length (rows d0)"
      "\<forall>c. c \<noteq> ''month'' \<longrightarrow> map (\<lambda>r. cell r c) (rows d') = map (\<lambda>r. cell r c) (rows d0)"
    by blast
  from dd(1,2) s1(2) have "d0 = d" "d' = with_month d" by simp_all
  with dd(3,4) have
    "length (rows (with_month d)) = length (rows d)"
    "map (\<lambda>r. cell r ''profit'') (rows (with_month d)) = map (\<lambda>r. cell r ''profit'') (rows d)"
    by simp_all
  with s1 s2 s3 k with_month_columns[OF s1(4)] show ?thesis
    by (intro exI[of _ s1] exI[of _ s2] exI[of _ d] exI[of _ "with_month d"]
        exI[of _ "s1\<lparr>df := Some (with_month d), monthly_sales := Some (monthly_totals (with_month d))\<rparr>"])
       simp
qed

text \<open>
  Claim C2 as stated fails at cell 13: run after cell 3, it leaves \<^verbatim>\<open>df\<close> with seven
  columns where it had six.
\<close>

theorem df_mutated_counterexample:
  "(case exec demo_numpy Cell3 (fresh 0) of
      Inl e \<Rightarrow> False
    | Inr s1 \<Rightarrow>
        (case exec demo_numpy Cell13 s1 of
           Inl e \<Rightarrow> False
         | Inr s2 \<Rightarrow> map_option columns (df s1) = Some sale_columns \<and>
                     map_option columns (df s2) = Some (sale_columns @ [''month''])))"
proof -
  from cell3_sales_table[of demo_numpy "fresh 0"] obtain s1 d where
    s1: "cell3 demo_numpy (fresh 0) = Inr s1" "df s1 = Some d" "sales_table d"
      "columns d = sale_columns"
    by blast
  have "exec demo_numpy Cell13 s1 = Inr (s1\<lparr>df := Some (with_month d),
                          monthly_sales := Some (monthly_totals (with_month d))\<rparr>)"
    using cell13_result[OF s1(3,2)] by simp
  with s1 with_month_columns[OF s1(4)] show ?thesis by simp
qed

section \<open>How the cells depend on one another\<close>

text \<open>The variables of the kernel, without the state of the generator.\<close>

definition variables :: "'g kernel \<Rightarrow> unit kernel" where
  "variables s =
     \<lparr>rng = (), others = others s, df = df s, north_data = north_data s,
      product_a_south = product_a_south s, q1_data = q1_data s,
      profit_by_region_product = profit_by_region_product s,
      region_summary = region_summary s, pivot_table = pivot_table s,
      monthly_sales = monthly_sales s, product_profit = product_profit s,
      total_profit = total_profit s, product_monthly = product_monthly s,
      region_product_sales = region_product_sales s\<rparr>"

lemma map_sum_bind_e:
  "map_sum id f (bind_e m k) = bind_e m (\<lambda>x. map_sum id f (k x))"
  by (cases m) simp_all

lemma variables_eqD:
  assumes "variables s = variables s'"
  shows "others s = others s'" "df s = df s'" "north_data s = north_data s'"
    "product_a_south s = product_a_south s'" "q1_data s = q1_data s'"
    "profit_by_region_product s = profit_by_region_product s'"
    "region_summary s = region_summary s'" "pivot_table s = pivot_table s'"
    "monthly_sales s = monthly_sales s'" "product_profit s = product_profit s'"
    "total_profit s = total_profit s'" "product_monthly s = product_monthly s'"
    "region_product_sales s = region_product_sales s'"
  using assms unfolding variables_def by simp_all

text \<open>
  No cell but 3 reads or writes the generator: what it does is a function of the
  variables.
\<close>

lemma exec_variables:
  assumes "c \<noteq> Cell3" "variables s = variables s'"
  shows "map_sum id variables (exec np c s) = map_sum id variables (exec np' c s')"
proof -
  note eqs = variables_eqD[OF assms(2)]
  note defs = map_sum_bind_e need_name_def bind_names_def variables_def
  show ?thesis
  proof (cases c)
    case Cell1 then show ?thesis using assms(2) by simp
  next
    case Cell3 with assms(1) show ?thesis by simp
  next
    case Cell4 then show ?thesis by (simp add: cell4_def defs eqs)
  next
    case Cell6 then show ?thesis by (simp add: cell6_def defs eqs)
  next
    case Cell7 then show ?thesis by (simp add: cell7_def defs eqs)
  next
    case Cell8 then show ?thesis by (simp add: cell8_def defs eqs)
  next
    case Cell9 then show ?thesis by (simp add: cell9_def defs eqs)
  next
    case Cell10 then show ?thesis by (simp add: cell10_def defs eqs)
  next
    case Cell11 then show ?thesis by (simp add: cell11_def defs eqs)
  next
    case Cell12 then show ?thesis by (simp add: cell12_def defs eqs)
  next
    case Cell13 then show ?thesis by (simp add: cell13_def defs eqs Let_def)
  next
    case Cell14 then show ?thesis by (simp add: cell14_def defs eqs)
  next
    case Cell16 then show ?thesis by (simp add: cell16_def defs eqs)
  next
    case Cell17 then show ?thesis by (simp add: cell17_def defs eqs)
  next
    case Cell18 then show ?thesis by (simp add: cell18_def defs eqs)
  next
    case Cell19 then show ?thesis by (simp add: cell19_def defs eqs)
  next
    case Cell20 then show ?thesis by (simp add: cell20_def defs eqs)
  next
    case Cell21 then show ?thesis by (simp add: cell21_def defs eqs)
  next
    case Cell22 then show ?thesis by (simp add: cell22_def defs eqs)
  next
    case Cell23 then show ?thesis by (simp add: cell23_def defs eqs)
  next
    case Cell25 then show ?thesis by (simp add: cell25_def defs eqs)
  next
    case Cell26 then show ?thesis by (simp add: cell26_def defs eqs)
  next
    case Cell27 then show ?thesis by (simp add: cell27_def defs eqs)
  next
    case Cell28 then show ?thesis by (simp add: cell28_def defs eqs)
  next
    case Cell29 then show ?thesis by (simp add: cell29_def defs eqs)
  next
    case Cell30 then show ?thesis by (simp add: cell30_def defs eqs)
  qed
qed

lemma run_variables:
  assumes "Cell3 \<notin> set cs" "variables s = variables s'"
  shows "map_sum id variables (run np cs s) = map_sum id variables (run np' cs s')"
  using assms
proof (induction cs arbitrary: s s')
  case Nil
  then show ?case by (simp add: run_def)
next
  case (Cons c cs)
  from Cons.prems(1) have c: "c \<noteq> Cell3" and cs: "Cell3 \<notin> set cs" by auto
  note step = exec_variables[OF c Cons.prems(2), of np np']
  show ?case
  proof (cases "exec np c s")
    case (Inl e)
    with step have "exec np' c s' = Inl e" by (cases "exec np' c s'") simp_all
    with Inl show ?thesis by (simp add: run_def)
  next
    case (Inr t)
    with step obtain t' where t': "exec np' c s' = Inr t'" "variables t = variables t'"
      by (cases "exec np' c s'") simp_all
    from Cons.IH[OF cs t'(2)] Inr t'(1) show ?thesis by (simp add: run_def)
  qed
qed


section \<open>The cells after cell 3 run through\<close>

lemma set_fold_insert: "set (fold List.insert ns xs) = set ns \<union> set xs"
  by (induction ns arbitrary: xs) auto

lemma others_bind_names [simp]:
  "n \<in> set (others (bind_names ns s)) \<longleftrightarrow> n \<in> set ns \<or> n \<in> set (others s)"
  by (simp add: bind_names_def set_fold_insert)

lemma bind_names_fields [simp]:
  "region_summary (bind_names ns s) = region_summary s"
  "pivot_table (bind_names ns s) = pivot_table s"
  "monthly_sales (bind_names ns s) = monthly_sales s"
  "product_profit (bind_names ns s) = product_profit s"
  "product_monthly (bind_names ns s) = product_monthly s"
  by (simp_all add: bind_names_def)

lemma sales_column:
  assumes "sales_table d" "c \<in> set sale_columns"
  shows "column d c = Inr (map (\<lambda>r. cell r c) (rows d))"
  using sales_table_columns[OF assms] by (simp add: column_def)

lemma sales_find:
  assumes "sales_table d" "set cs \<subseteq> set sale_columns"
  shows "find (\<lambda>c. c \<notin> set (columns d)) cs = None"
  using assms sales_table_columns[OF assms(1)] by (auto simp: find_None_iff)

lemma cell4_ok: "df s = Some d \<Longrightarrow> cell4 s = Inr s"
  by (simp add: cell4_def need_def)

lemma cell6_ok:
  assumes "sales_table d" "df s = Some d"
  shows "\<exists>t. cell6 s = Inr (s\<lparr>north_data := Some t\<rparr>)"
  by (rule exI) (simp add: cell6_def need_def assms(2) sales_column[OF assms(1)] sale_columns_def)

lemma cell7_ok:
  assumes "sales_table d" "df s = Some d"
  shows "\<exists>t. cell7 s = Inr (s\<lparr>product_a_south := Some t\<rparr>)"
  by (rule exI) (simp add: cell7_def need_def assms(2) sales_column[OF assms(1)] sale_columns_def)

lemma cell8_ok:
  assumes "sales_table d" "df s = Some d"
  shows "\<exists>t. cell8 s = Inr (s\<lparr>q1_data := Some t\<rparr>)"
proof -
  let ?lo = "Timestamp 2023 1 1" and ?hi = "Timestamp 2023 3 31"
  have "map_e (\<lambda>r. date_between ?lo ?hi (cell r ''date'')) (rows d)
        = Inr (map (\<lambda>r. ts_le ?lo (the_date (cell r ''date'')) \<and> ts_le (the_date (cell r ''date'')) ?hi)
                 (rows d))"
  proof (rule map_e_Inr)
    fix r assume "r \<in> set (rows d)"
    then have "sales_row r" by (rule sales_table_rows[OF assms(1)])
    then obtain t where "cell r ''date'' = DateV t" using sales_row_date by blast
    then show "date_between ?lo ?hi (cell r ''date'')
        = Inr (ts_le ?lo (the_date (cell r ''date'')) \<and> ts_le (the_date (cell r ''date'')) ?hi)"
      by simp
  qed
  then have "\<exists>keep. map_e (date_between ?lo ?hi) (map (\<lambda>r. cell r ''date'') (rows d)) = Inr keep"
    by (simp add: map_e_map)
  then obtain keep where
    keep: "map_e (date_between ?lo ?hi) (map (\<lambda>r. cell r ''date'') (rows d)) = Inr keep" ..
  show ?thesis
    by (rule exI)
      (simp only: cell8_def need_def assms(2) option.case bind_e_simps
        sales_column[OF assms(1), of "''date''", unfolded sale_columns_def, simplified] keep)
qed

lemma cell9_ok:
  assumes "sales_table d" "df s = Some d"
  shows "\<exists>t. cell9 s = Inr (s\<lparr>profit_by_region_product := Some t\<rparr>)"
proof -
  have "find (\<lambda>c. c \<notin> set (columns d)) [''region'', ''product'', ''profit''] = None"
    by (rule sales_find[OF assms(1)]) (simp add: sale_columns_def)
  then show ?thesis
    unfolding cell9_def select_columns_def
    by (intro exI) (simp only: need_def assms(2) option.case bind_e_simps)
qed

lemma cell10_ok:
  assumes "sales_table d" "df s = Some d"
  shows "cell10 s = Inr (bind_names [''top_profit''] s)"
proof -
  have "find (\<lambda>c. c \<notin> set (columns d)) [''profit'', ''date'', ''region'', ''product''] = None"
    by (rule sales_find[OF assms(1)]) (simp add: sale_columns_def)
  then show ?thesis
    unfolding cell10_def reads_def by (simp add: need_def assms(2))
qed

lemma cell12_ok:
  assumes "sales_table d" "df s = Some d"
  shows "\<exists>t. cell12 s = Inr (s\<lparr>pivot_table := Some t\<rparr>)"
  unfolding cell12_def
  by (rule exI) (simp only: need_def assms(2) option.case bind_e_simps pivot_table_mean_eq[OF assms(1)])

lemma reads_ok: "set cs \<subseteq> set (columns t) \<Longrightarrow> reads t cs = Inr ()"
  by (simp add: reads_def find_None_subset)

lemma cell16_ok:
  "region_summary s = Some t \<Longrightarrow> {''region'', ''sales''} \<subseteq> set (columns t) \<Longrightarrow> cell16 s = Inr s"
  by (simp add: cell16_def need_def reads_ok)

lemma cell17_ok:
  "monthly_sales s = Some t \<Longrightarrow> {''month'', ''sales''} \<subseteq> set (columns t) \<Longrightarrow> cell17 s = Inr s"
  by (simp add: cell17_def need_def reads_ok)

lemma cell18_ok:
  "product_profit s = Some t \<Longrightarrow> {''profit'', ''product''} \<subseteq> set (columns t) \<Longrightarrow> cell18 s = Inr s"
  by (simp add: cell18_def need_def reads_ok)

lemma cell19_ok: "pivot_table s = Some t \<Longrightarrow> cell19 s = Inr s"
  by (simp add: cell19_def need_def)

lemma sales_has:
  assumes "sales_table d"
  shows "''date'' \<in> set (columns d)" "''region'' \<in> set (columns d)"
    "''product'' \<in> set (columns d)" "''sales'' \<in> set (columns d)"
    "''cost'' \<in> set (columns d)" "''profit'' \<in> set (columns d)"
  using assms by (simp_all add: sales_table_def sale_columns_def)

lemma groupby_month_product:
  assumes "sales_table d" "has_month d"
  shows "\<exists>t. groupby_sum [''month'', ''product''] [''sales''] d = Inr t"
proof (rule exI, rule groupby_sum_eq)
  show "set ([''month'', ''product''] @ [''sales'']) \<subseteq> set (columns d)"
    using sales_has[OF assms(1)] assms(2) by (simp add: has_month_def)
next
  fix r c assume r: "r \<in> set (rows d)" and "c \<in> set [''month'', ''product'']"
  then consider "c = ''month''" | "c = ''product''" by auto
  then show "\<exists>s. map_of r c = Some (StrV s)"
  proof cases
    case 1
    with has_month_str[OF assms(2) r] show ?thesis by simp
  next
    case 2
    with sales_row_str[OF sales_table_rows[OF assms(1) r], of c] show ?thesis by simp
  qed
next
  fix r c assume r: "r \<in> set (rows d)" and "c \<in> set [''sales'']"
  then have "c = ''sales''" by simp
  with sales_row_int[OF sales_table_rows[OF assms(1) r], of c]
  show "\<exists>i. map_of r c = Some (IntV i)" by simp
qed

lemma groupby_region_product:
  assumes "sales_table d" "set vals \<subseteq> {''sales'', ''cost'', ''profit''}"
  shows "groupby_sum [''region'', ''product''] vals d =
     Inr \<lparr>columns = [''region'', ''product''] @ vals,
          rows = map (\<lambda>k. zip [''region'', ''product''] (map StrV k) @
                           map (\<lambda>c. (c, IntV (total_where d c
                                        (\<lambda>r. row_key [''region'', ''product''] r = k)))) vals)
                     (sort (uniq (map (row_key [''region'', ''product'']) (rows d))))\<rparr>"
proof (rule groupby_sum_eq)
  have "c \<in> set (columns d)" if "c \<in> set vals" for c
  proof -
    from that assms(2) have "c \<in> {''sales'', ''cost'', ''profit''}" by (rule subsetD[rotated])
    then consider "c = ''sales''" | "c = ''cost''" | "c = ''profit''" by blast
    then show ?thesis using sales_has[OF assms(1)] by cases simp_all
  qed
  then have "set vals \<subseteq> set (columns d)" by blast
  then show "set ([''region'', ''product''] @ vals) \<subseteq> set (columns d)"
    using sales_has[OF assms(1)] by simp
next
  fix r c assume r: "r \<in> set (rows d)" and "c \<in> set [''region'', ''product'']"
  then have "c \<in> {''region'', ''product''}" by simp
  with sales_table_rows[OF assms(1) r] show "\<exists>s. map_of r c = Some (StrV s)"
    by (rule sales_row_str)
next
  fix r c assume r: "r \<in> set (rows d)" and "c \<in> set vals"
  with assms(2) have "c \<in> {''sales'', ''cost'', ''profit''}" by blast
  with sales_table_rows[OF assms(1) r] show "\<exists>i. map_of r c = Some (IntV i)"
    by (rule sales_row_int)
qed

lemma cell20_ok:
  assumes "sales_table d" "has_month d" "df s = Some d" "''products'' \<in> set (others s)"
  shows "\<exists>t. cell20 s = Inr (bind_names [''product_monthly_pivot''] (s\<lparr>product_monthly := Some t\<rparr>))"
proof -
  from groupby_month_product[OF assms(1,2)] obtain t where t: "groupby_sum [''month'', ''product''] [''sales''] d = Inr t" ..
  show ?thesis
    unfolding cell20_def
    by (rule exI) (simp only: need_def need_name_def assms(3,4) option.case bind_e_simps t if_True)
qed

text \<open>Without the column \<^verbatim>\<open>month\<close>, which cell 13 adds, cell 20 raises KeyError.\<close>

lemma cell20_needs_month:
  assumes "df s = Some d" "''month'' \<notin> set (columns d)"
  shows "cell20 s = Inl (KeyError ''month'')"
  unfolding cell20_def groupby_sum_def by (simp add: need_def assms)

lemma cell21_ok:
  assumes "sales_table d" "df s = Some d"
  shows "\<exists>t. cell21 s = Inr (s\<lparr>region_product_sales := Some t\<rparr>)"
proof -
  have "\<exists>t. groupby_sum [''region'', ''product''] [''sales''] d = Inr t"
    by (rule exI, rule groupby_region_product[OF assms(1)]) simp
  then obtain t where t: "groupby_sum [''region'', ''product''] [''sales''] d = Inr t" ..
  show ?thesis
    unfolding cell21_def
    by (rule exI) (simp only: need_def assms(2) option.case bind_e_simps t)
qed

lemma cell22_ok:
  assumes "sales_table d" "df s = Some d"
  shows "cell22 s = Inr s"
proof -
  have "find (\<lambda>c. c \<notin> set (columns d)) [''region'', ''profit''] = None"
    by (rule sales_find[OF assms(1)]) (simp add: sale_columns_def)
  then show ?thesis
    unfolding cell22_def reads_def by (simp add: need_def assms(2))
qed

lemma cell23_ok:
  assumes "sales_table d" "df s = Some d"
  shows "cell23 s = Inr s"
proof -
  have "find (\<lambda>c. c \<notin> set (columns d)) [''sales'', ''profit'', ''product'', ''cost''] = None"
    by (rule sales_find[OF assms(1)]) (simp add: sale_columns_def)
  then show ?thesis
    unfolding cell23_def reads_def by (simp add: need_def assms(2))
qed

lemma map_of_zip_other: "c \<notin> set keys \<Longrightarrow> map_of (zip keys vs @ r) c = map_of r c"
proof -
  assume "c \<notin> set keys"
  then have "c \<notin> fst ` set (zip keys vs)" by (auto dest: set_zip_leftD)
  then have "map_of (zip keys vs) c = None" by (simp add: map_of_eq_None_iff)
  then show ?thesis by (simp add: map_add_def)
qed

lemma cell25_ok:
  assumes "sales_table d" "df s = Some d"
  shows "cell25 s = Inr (bind_names [''profit_analysis''] s)"
proof -
  let ?keys = "[''region'', ''product'']" and ?vals = "[''sales'', ''cost'', ''profit'']"
  let ?T = "\<lambda>c k. total_where d c (\<lambda>r. row_key ?keys r = k)"
  let ?row = "\<lambda>k. zip ?keys (map StrV k) @ map (\<lambda>c. (c, IntV (?T c k))) ?vals"
  let ?groups = "sort (uniq (map (row_key ?keys) (rows d)))"
  have g: "groupby_sum ?keys ?vals d = Inr \<lparr>columns = ?keys @ ?vals, rows = map ?row ?groups\<rparr>"
    by (rule groupby_region_product[OF assms(1)]) simp
  have "\<exists>t. add_profit_margin \<lparr>columns = ?keys @ ?vals, rows = map ?row ?groups\<rparr> = Inr t"
  proof (rule exI, rule add_profit_margin_eq)
    fix k assume "k \<in> set ?groups"
    have "map_of (?row k) ''profit'' = map_of (map (\<lambda>c. (c, IntV (?T c k))) ?vals) ''profit''"
      by (rule map_of_zip_other) simp
    moreover have "map_of (?row k) ''sales'' = map_of (map (\<lambda>c. (c, IntV (?T c k))) ?vals) ''sales''"
      by (rule map_of_zip_other) simp
    ultimately have "map_of (?row k) ''profit'' = Some (IntV (?T ''profit'' k))"
      "map_of (?row k) ''sales'' = Some (IntV (?T ''sales'' k))"
      by simp_all
    moreover have "fst ` set (?row k) \<subseteq> set ?keys \<union> set ?vals"
      by (auto dest: set_zip_leftD)
    ultimately show "cell (?row k) ''profit'' = IntV (?T ''profit'' k) \<and>
        cell (?row k) ''sales'' = IntV (?T ''sales'' k) \<and>
        ''profit_margin'' \<notin> fst ` set (?row k)"
      unfolding cell_def by auto
  qed simp_all
  then obtain t where "add_profit_margin \<lparr>columns = ?keys @ ?vals, rows = map ?row ?groups\<rparr> = Inr t" ..
  with g show ?thesis
    unfolding cell25_def by (simp add: need_def assms(2))
qed

lemma cell26_ok: "''profit_analysis'' \<in> set (others s) \<Longrightarrow> cell26 s = Inr s"
  by (simp add: cell26_def need_name_def)

lemma cell27_ok:
  assumes "monthly_sales s = Some t" "monthly_table t"
  shows "\<exists>t'. cell27 s = Inr (bind_names [''monthly_sales_ts''] (s\<lparr>monthly_sales := Some t'\<rparr>))"
proof -
  from assms(2) have "reads t [''month'', ''sales''] = Inr ()"
    by (simp add: reads_ok monthly_table_def)
  then show ?thesis
    unfolding cell27_def
    by (intro exI)
      (simp only: need_def assms(1) option.case bind_e_simps growth_rate_eq[OF assms(2)]
        cell27_shown_eq[OF assms(2)])
qed

lemma cell28_ok:
  assumes "sales_table d" "df s = Some d"
  shows "cell28 s = Inr (bind_names [''correlation''] s)"
proof -
  have "find (\<lambda>c. c \<notin> set (columns d)) [''sales'', ''cost'', ''profit''] = None"
    by (rule sales_find[OF assms(1)]) (simp add: sale_columns_def)
  then show ?thesis
    unfolding cell28_def select_columns_def by (simp add: need_def assms(2))
qed

lemma cell29_ok:
  "''profit_analysis'' \<in> set (others s) \<Longrightarrow>
   cell29 s = Inr (bind_names [''best_products'', ''worst_products''] s)"
  by (simp add: cell29_def need_name_def)

lemma cell30_ok: "''worst_products'' \<in> set (others s) \<Longrightarrow> cell30 s = Inr s"
  by (simp add: cell30_def need_name_def)


lemma cell11_ex:
  assumes "sales_table d" "df s = Some d"
  shows "\<exists>t. cell11 s = Inr (s\<lparr>region_summary := Some t\<rparr>) \<and>
      columns t = [''region'', ''sales'', ''cost'', ''profit'', ''profit_margin'']"
  by (rule exI, rule conjI, rule cell11_result[OF assms]) simp

lemma cell14_ex:
  assumes "sales_table d" "df s = Some d"
  shows "\<exists>t n. cell14 s = Inr (s\<lparr>product_profit := Some t, total_profit := Some n\<rparr>) \<and>
      columns t = [''product'', ''profit'', ''contribution_percentage'']"
  by (intro exI conjI, rule cell14_result[OF assms]) simp

text \<open>
  From a state in which \<^verbatim>\<open>df\<close> is a sales table and \<^verbatim>\<open>products\<close> is bound, as cell 3
  leaves it, the cells after cell 3 run through in the order of the file.
\<close>

lemma analysis_runs:
  assumes T: "sales_table d" and D: "df s = Some d" and O: "''products'' \<in> set (others s)"
  shows "\<exists>t. run np analysis s = Inr t"
proof -
  note e4 = cell4_ok[OF D]
  from cell6_ok[OF T D] obtain t6 where
    e6: "cell6 s = Inr (s\<lparr>north_data := Some t6\<rparr>)" ..
  let ?a1 = "s\<lparr>north_data := Some t6\<rparr>"
  have D1: "df ?a1 = Some d" using D by simp
  from cell7_ok[OF T D1] obtain t7 where
    e7: "cell7 ?a1 = Inr (?a1\<lparr>product_a_south := Some t7\<rparr>)" ..
  let ?a2 = "?a1\<lparr>product_a_south := Some t7\<rparr>"
  have D2: "df ?a2 = Some d" using D by simp
  from cell8_ok[OF T D2] obtain t8 where
    e8: "cell8 ?a2 = Inr (?a2\<lparr>q1_data := Some t8\<rparr>)" ..
  let ?a3 = "?a2\<lparr>q1_data := Some t8\<rparr>"
  have D3: "df ?a3 = Some d" using D by simp
  from cell9_ok[OF T D3] obtain t9 where
    e9: "cell9 ?a3 = Inr (?a3\<lparr>profit_by_region_product := Some t9\<rparr>)" ..
  let ?a4 = "?a3\<lparr>profit_by_region_product := Some t9\<rparr>"
  have D4: "df ?a4 = Some d" using D by simp
  note e10 = cell10_ok[OF T D4]
  let ?a5 = "bind_names [''top_profit''] ?a4"
  have D5: "df ?a5 = Some d" using D by simp
  from cell11_ex[OF T D5] obtain rs where
    e11: "cell11 ?a5 = Inr (?a5\<lparr>region_summary := Some rs\<rparr>)" and
    rs: "columns rs = [''region'', ''sales'', ''cost'', ''profit'', ''profit_margin'']"
    by blast
  let ?a6 = "?a5\<lparr>region_summary := Some rs\<rparr>"
  have D6: "df ?a6 = Some d" using D by simp
  from cell12_ok[OF T D6] obtain pt where
    e12: "cell12 ?a6 = Inr (?a6\<lparr>pivot_table := Some pt\<rparr>)" ..
  let ?a7 = "?a6\<lparr>pivot_table := Some pt\<rparr>"
  have D7: "df ?a7 = Some d" using D by simp
  note e13 = cell13_result[OF T D7]
  let ?d = "with_month d"
  let ?a8 = "?a7\<lparr>df := Some ?d, monthly_sales := Some (monthly_totals ?d)\<rparr>"
  note T' = with_month_table[OF T]
  have D8: "df ?a8 = Some ?d" by simp
  from cell14_ex[OF T'(1) D8] obtain pp n where
    e14: "cell14 ?a8 = Inr (?a8\<lparr>product_profit := Some pp, total_profit := Some n\<rparr>)" and
    pp: "columns pp = [''product'', ''profit'', ''contribution_percentage'']"
    by blast
  let ?a9 = "?a8\<lparr>product_profit := Some pp, total_profit := Some n\<rparr>"
  have D9: "df ?a9 = Some ?d" by simp
  have e16: "cell16 ?a9 = Inr ?a9"
    by (rule cell16_ok[of _ rs]) (simp_all add: rs)
  have e17: "cell17 ?a9 = Inr ?a9"
    by (rule cell17_ok[of _ "monthly_totals ?d"]) (simp_all add: monthly_totals_def)
  have e18: "cell18 ?a9 = Inr ?a9"
    by (rule cell18_ok[of _ pp]) (simp_all add: pp)
  have e19: "cell19 ?a9 = Inr ?a9"
    by (rule cell19_ok[of _ pt]) simp
  have O9: "''products'' \<in> set (others ?a9)" using O by simp
  from cell20_ok[OF T' D9 O9] obtain t20 where
    e20: "cell20 ?a9 = Inr (bind_names [''product_monthly_pivot''] (?a9\<lparr>product_monthly := Some t20\<rparr>))" ..
  let ?a10 = "bind_names [''product_monthly_pivot''] (?a9\<lparr>product_monthly := Some t20\<rparr>)"
  have D10: "df ?a10 = Some ?d" by simp
  from cell21_ok[OF T'(1) D10] obtain t21 where
    e21: "cell21 ?a10 = Inr (?a10\<lparr>region_product_sales := Some t21\<rparr>)" ..
  let ?a11 = "?a10\<lparr>region_product_sales := Some t21\<rparr>"
  have D11: "df ?a11 = Some ?d" by simp
  note e22 = cell22_ok[OF T'(1) D11]
  note e23 = cell23_ok[OF T'(1) D11]
  note e25 = cell25_ok[OF T'(1) D11]
  let ?a12 = "bind_names [''profit_analysis''] ?a11"
  have e26: "cell26 ?a12 = Inr ?a12"
    by (rule cell26_ok) simp
  have M12: "monthly_sales ?a12 = Some (monthly_totals ?d)" by simp
  from cell27_ok[OF M12 monthly_table_totals] obtain t27 where
    e27: "cell27 ?a12 = Inr (bind_names [''monthly_sales_ts''] (?a12\<lparr>monthly_sales := Some t27\<rparr>))" ..
  let ?a13 = "bind_names [''monthly_sales_ts''] (?a12\<lparr>monthly_sales := Some t27\<rparr>)"
  have D13: "df ?a13 = Some ?d" by simp
  note e28 = cell28_ok[OF T'(1) D13]
  let ?a14 = "bind_names [''correlation''] ?a13"
  have e29: "cell29 ?a14 = Inr (bind_names [''best_products'', ''worst_products''] ?a14)"
    by (rule cell29_ok) simp
  let ?a15 = "bind_names [''best_products'', ''worst_products''] ?a14"
  have e30: "cell30 ?a15 = Inr ?a15"
    by (rule cell30_ok) simp
  have "run np analysis s = Inr ?a15"
    by (simp only: run_def analysis_def for_each.simps exec.simps bind_e_simps
        e4 e6 e7 e8 e9 e10 e11 e12 e13 e14 e16 e17 e18 e19 e20 e21 e22 e23 e25 e26 e27 e28
        e29 e30)
  then show ?thesis ..
qed

lemma run_take: "run np cs s = Inr t \<Longrightarrow> \<exists>u. run np (take n cs) s = Inr u"
proof (induction cs arbitrary: s n)
  case Nil
  then show ?case by (simp add: run_def)
next
  case (Cons c cs)
  show ?case
  proof (cases n)
    case 0
    then show ?thesis by (simp add: run_def)
  next
    case (Suc m)
    from Cons.prems obtain s1 where s1: "exec np c s = Inr s1" "run np cs s1 = Inr t"
      by (auto simp: run_def bind_e_Inr_iff)
    from Cons.IH[OF s1(2), of m] obtain u where "run np (take m cs) s1 = Inr u" ..
    with s1(1) Suc show ?thesis by (simp add: run_def)
  qed
qed

lemma cell3_from_fresh:
  "\<exists>data a. cell3 np (fresh g) =
      Inr (bind_names [''regions'', ''products'', ''months'', ''data'']
            ((fresh g)\<lparr>rng := a, df := Some \<lparr>columns = sale_columns, rows = data\<rparr>\<rparr>))"
  using cell3_result[of np] by blast

lemma cell3_variables:
  assumes "cell3 np (fresh g) = Inr s" "cell3 np' (fresh g') = Inr s'" "df s = df s'"
  shows "variables s = variables s'"
proof -
  from cell3_from_fresh[of np g] assms(1) obtain data a where
    s: "s = bind_names [''regions'', ''products'', ''months'', ''data'']
            ((fresh g)\<lparr>rng := a, df := Some \<lparr>columns = sale_columns, rows = data\<rparr>\<rparr>)"
    by auto
  from cell3_from_fresh[of np' g'] assms(2) obtain data' a' where
    s': "s' = bind_names [''regions'', ''products'', ''months'', ''data'']
            ((fresh g')\<lparr>rng := a', df := Some \<lparr>columns = sale_columns, rows = data'\<rparr>\<rparr>)"
    by auto
  from assms(3) show ?thesis
    unfolding s s' by (simp add: variables_def bind_names_def fresh_def)
qed




section \<open>The profit identity along the notebook\<close>

text \<open>
  Claim C1. Cell 3 builds a table in which every row has profit equal to sales minus cost.
  The cells after it run through in the order of the file, and the identity holds for
  every row of \<^verbatim>\<open>df\<close> after each of them; more generally, whatever cells are run after
  cell 3, in any order and any number of times, the identity still holds.
\<close>

theorem profit_identity_invariant:
  "\<exists>s1. exec np Cell3 s = Inr s1 \<and> identity_holds s1 \<and>
      (\<forall>n. \<exists>s2. run np (take n analysis) s1 = Inr s2 \<and> identity_holds s2) \<and>
      (\<forall>cs s2. run np cs s1 = Inr s2 \<longrightarrow> identity_holds s2)"
proof -
  from cell3_sales_table[of np s] obtain s1 d where
    s1: "exec np Cell3 s = Inr s1" "df s1 = Some d" "sales_table d"
      "''products'' \<in> set (others s1)"
    by auto
  from cell3_identity[of np s] s1(1) have i: "identity_holds s1" by auto
  have later: "identity_holds s2" if "run np cs s1 = Inr s2" for cs s2
    using i that by (rule run_identity)
  have "\<exists>s2. run np (take n analysis) s1 = Inr s2 \<and> identity_holds s2" for n
  proof -
    from analysis_runs[OF s1(3,2,4)] obtain t where "run np analysis s1 = Inr t" ..
    from run_take[OF this] obtain s2 where "run np (take n analysis) s1 = Inr s2" ..
    with later show ?thesis by blast
  qed
  with s1(1) i later show ?thesis by blast
qed

theorem profit_identity_invariant_witness:
  "\<exists>s1 s2. exec demo_numpy Cell3 (fresh 0) = Inr s1 \<and> identity_holds s1 \<and>
      run demo_numpy analysis s1 = Inr s2 \<and> identity_holds s2"
proof -
  from profit_identity_invariant[of demo_numpy "fresh 0"] obtain s1 where
    a: "exec demo_numpy Cell3 (fresh 0) = Inr s1" "identity_holds s1"
      "\<forall>n. \<exists>s2. run demo_numpy (take n analysis) s1 = Inr s2 \<and> identity_holds s2"
      "\<forall>cs s2. run demo_numpy cs s1 = Inr s2 \<longrightarrow> identity_holds s2"
    by blast
  from a(3) obtain s2 where "run demo_numpy (take (length analysis) analysis) s1 = Inr s2"
    by blast
  then have r: "run demo_numpy analysis s1 = Inr s2" by simp
  with a(4) have "identity_holds s2" by blast
  with a(1,2) r show ?thesis by blast
qed

end
